theory Spec2Isabelle
  imports Complex_Main
begin

section \<open>Python string primitives used by the agent loop and the memory store\<close>

text \<open>
  A Python \<^verbatim>\<open>str\<close> is a sequence of Unicode code points, and \<^verbatim>\<open>len\<close> counts
  them. A code point below 256 is \<open>Ch c\<close>, with the number of the character \<open>c\<close>;
  the code point \<open>256 + n\<close> is \<open>Uni n\<close>. So every code point has one representation,
  and a text of the ASCII range is the image of an Isabelle string under \<open>lit\<close>.
\<close>

datatype uchar = Ch char | Uni nat

type_synonym ustring = "uchar list"

definition lit :: "string \<Rightarrow> ustring" where
  "lit s = map Ch s"

definition code_point :: "nat \<Rightarrow> uchar" where
  "code_point n = (if n < 256 then Ch (char_of n) else Uni (n - 256))"

text \<open>
  The whitespace of \<^verbatim>\<open>str.split()\<close> and \<^verbatim>\<open>str.strip()\<close>: the code
  points for which \<^verbatim>\<open>str.isspace()\<close> holds, U+0009 to U+000D, U+001C to U+0020, U+0085,
  U+00A0, U+1680, U+2000 to U+200A, U+2028, U+2029, U+202F, U+205F and U+3000.
\<close>

definition is_space :: "uchar \<Rightarrow> bool" where
  "is_space c =
     (case c of
        Ch x \<Rightarrow> x \<in> set [CHR 0x09, CHR 0x0A, CHR 0x0B, CHR 0x0C, CHR 0x0D, CHR 0x1C, CHR 0x1D,
                         CHR 0x1E, CHR 0x1F, CHR 0x20, CHR 0x85, CHR 0xA0]
      | Uni n \<Rightarrow> n + 256 \<in> set [0x1680, 0x2000, 0x2001, 0x2002, 0x2003, 0x2004, 0x2005, 0x2006,
                                  0x2007, 0x2008, 0x2009, 0x200A, 0x2028, 0x2029, 0x202F, 0x205F,
                                  0x3000])"

text \<open>\<^verbatim>\<open>s.strip()\<close>\<close>

definition strip :: "ustring \<Rightarrow> ustring" where
  "strip s = rev (dropWhile is_space (rev (dropWhile is_space s)))"

text \<open>\<^verbatim>\<open>s.split()\<close>: the maximal runs of non-whitespace characters.\<close>

fun words_acc :: "ustring \<Rightarrow> ustring \<Rightarrow> ustring list" where
  "words_acc cur [] = (if cur = [] then [] else [rev cur])"
| "words_acc cur (c # cs) =
     (if is_space c then (if cur = [] then words_acc [] cs else rev cur # words_acc [] cs)
      else words_acc (c # cur) cs)"

definition split_ws :: "ustring \<Rightarrow> ustring list" where
  "split_ws s = words_acc [] s"

text \<open>
  \<^verbatim>\<open>str.lower()\<close> follows the case mapping of the Unicode tables of the Python
  runtime, which are not part of the repository: the functions that lowercase take the
  mapping as a parameter, and every property below holds for any mapping. On ASCII text
  it is \<open>ascii_lower\<close>, the mapping the examples use.
\<close>

definition lower_char :: "char \<Rightarrow> char" where
  "lower_char c =
     (case map_of (zip ''ABCDEFGHIJKLMNOPQRSTUVWXYZ'' ''abcdefghijklmnopqrstuvwxyz'') c of
        None \<Rightarrow> c | Some d \<Rightarrow> d)"

definition ascii_lower :: "ustring \<Rightarrow> ustring" where
  "ascii_lower s = map (\<lambda>c. case c of Ch x \<Rightarrow> Ch (lower_char x) | Uni n \<Rightarrow> Uni n) s"

definition startswith :: "ustring \<Rightarrow> ustring \<Rightarrow> bool" where
  "startswith s p = (take (length p) s = p)"

text \<open>\<^verbatim>\<open>sub in s\<close>\<close>

fun contains :: "ustring \<Rightarrow> ustring \<Rightarrow> bool" where
  "contains [] sub = (sub = [])"
| "contains (c # cs) sub = (startswith (c # cs) sub \<or> contains cs sub)"

text \<open>\<^verbatim>\<open>s.split("\n")\<close> and \<^verbatim>\<open>sep.join(xs)\<close>\<close>

fun split_nl :: "ustring \<Rightarrow> ustring list" where
  "split_nl [] = [[]]"
| "split_nl (c # cs) =
     (if c = Ch (CHR 0x0A) then [] # split_nl cs
      else (case split_nl cs of [] \<Rightarrow> [[c]] | l # ls \<Rightarrow> (c # l) # ls))"

fun join :: "ustring \<Rightarrow> ustring list \<Rightarrow> ustring" where
  "join sep [] = []"
| "join sep [x] = x"
| "join sep (x # y # ys) = x @ sep @ join sep (y # ys)"

text \<open>
  \<^verbatim>\<open>line.split("]", 1)[1]\<close>: the text after the first closing bracket. The program
  only evaluates it on lines that start with \<^verbatim>\<open>[field]\<close>, which have one.
\<close>

definition after_bracket :: "ustring \<Rightarrow> ustring" where
  "after_bracket line = drop 1 (dropWhile (\<lambda>c. c \<noteq> Ch (CHR '']'')) line)"

text \<open>\<^verbatim>\<open>xs[-n:]\<close> for a positive literal \<^verbatim>\<open>n\<close>\<close>

definition last_n :: "nat \<Rightarrow> 'a list \<Rightarrow> 'a list" where
  "last_n n xs = drop (length xs - n) xs"

subsection \<open>Decimal integers: \<^verbatim>\<open>str(i)\<close> and \<^verbatim>\<open>int(s)\<close>\<close>

text \<open>
  The decimal digits: \<^verbatim>\<open>int()\<close> reads every code point of the Unicode category
  \<^verbatim>\<open>Nd\<close> with its decimal value. In the Unicode database of Python 3.11 (version 14.0)
  they are the ASCII digits and 65 further runs of ten consecutive code points, each
  starting with the digit zero of a script; \<open>decimal_zeros\<close> lists these zeros.
\<close>

definition decimal_zeros :: "nat list" where
  "decimal_zeros =
     [0x660, 0x6F0, 0x7C0, 0x966, 0x9E6, 0xA66, 0xAE6, 0xB66, 0xBE6, 0xC66, 0xCE6, 0xD66,
      0xDE6, 0xE50, 0xED0, 0xF20, 0x1040, 0x1090, 0x17E0, 0x1810, 0x1946, 0x19D0, 0x1A80,
      0x1A90, 0x1B50, 0x1BB0, 0x1C40, 0x1C50, 0xA620, 0xA8D0, 0xA900, 0xA9D0, 0xA9F0, 0xAA50,
      0xABF0, 0xFF10, 0x104A0, 0x10D30, 0x11066, 0x110F0, 0x11136, 0x111D0, 0x112F0, 0x11450,
      0x114D0, 0x11650, 0x116C0, 0x11730, 0x118E0, 0x11950, 0x11C50, 0x11D50, 0x11DA0,
      0x16A60, 0x16AC0, 0x16B50, 0x1D7CE, 0x1D7D8, 0x1D7E2, 0x1D7EC, 0x1D7F6, 0x1E140,
      0x1E2F0, 0x1E950, 0x1FBF0]"

definition decimal_of :: "uchar \<Rightarrow> nat option" where
  "decimal_of c =
     (case c of
        Ch x \<Rightarrow> map_of (zip ''0123456789'' [0, 1, 2, 3, 4, 5, 6, 7, 8, 9]) x
      | Uni n \<Rightarrow> (case filter (\<lambda>z. z \<le> n + 256 \<and> n + 256 < z + 10) decimal_zeros of
                   [] \<Rightarrow> None
                 | z # zs \<Rightarrow> Some (n + 256 - z)))"

definition is_digit :: "uchar \<Rightarrow> bool" where
  "is_digit c = (decimal_of c \<noteq> None)"

definition digit_val :: "uchar \<Rightarrow> nat" where
  "digit_val c = (case decimal_of c of None \<Rightarrow> 0 | Some d \<Rightarrow> d)"

definition digit_char :: "nat \<Rightarrow> uchar" where
  "digit_char d = (lit ''0123456789'') ! d"

definition nat_of_digits :: "ustring \<Rightarrow> nat" where
  "nat_of_digits ds = foldl (\<lambda>a c. 10 * a + digit_val c) 0 ds"

text \<open>
  The digit part accepted by \<^verbatim>\<open>int()\<close>: decimal digits, with single underscores
  allowed between digits.
\<close>

fun digit_groups :: "bool \<Rightarrow> ustring \<Rightarrow> bool" where
  "digit_groups prev [] = prev"
| "digit_groups prev (c # cs) =
     (if is_digit c then digit_groups True cs
      else c = Ch (CHR ''_'') \<and> prev \<and> digit_groups False cs)"

text \<open>
  \<^verbatim>\<open>int(s)\<close>; \<open>None\<close> is the \<^verbatim>\<open>ValueError\<close>. The whitespace \<^verbatim>\<open>int()\<close> ignores
  around the number is that of \<^verbatim>\<open>str.isspace()\<close> without the four separators U+001C to
  U+001F. The interpreter's limit on the number of digits of one conversion (4300 unless
  configured otherwise) is not part of the model.
\<close>

definition is_int_space :: "uchar \<Rightarrow> bool" where
  "is_int_space c = (is_space c \<and> c \<notin> set [Ch (CHR 0x1C), Ch (CHR 0x1D), Ch (CHR 0x1E), Ch (CHR 0x1F)])"

definition py_int :: "ustring \<Rightarrow> int option" where
  "py_int s0 =
     (let s = rev (dropWhile is_int_space (rev (dropWhile is_int_space s0)));
          neg = (s \<noteq> [] \<and> hd s = Ch (CHR ''-''));
          body = (if s \<noteq> [] \<and> (hd s = Ch (CHR ''-'') \<or> hd s = Ch (CHR ''+'')) then tl s else s)
      in if digit_groups False body
         then Some ((if neg then - 1 else 1) * int (nat_of_digits (filter is_digit body)))
         else None)"

function str_nat :: "nat \<Rightarrow> ustring" where
  "str_nat n = (if n < 10 then [digit_char n] else str_nat (n div 10) @ [digit_char (n mod 10)])"
  by pat_completeness auto
termination
  by (relation "measure id") auto

declare str_nat.simps [simp del]

definition py_str :: "int \<Rightarrow> ustring" where
  "py_str i = (if i < 0 then Ch (CHR ''-'') # str_nat (nat (- i)) else str_nat (nat i))"

section \<open>The agent control loop (\<^verbatim>\<open>agent/loop.py\<close>)\<close>

subsection \<open>Data exchanged with the collaborators\<close>

text \<open>
  A tool argument value is either a string or another JSON value; for the latter the
  model carries Python's \<^verbatim>\<open>str()\<close> rendering, the only thing the loop reads of it.
\<close>

datatype jvalue = JStr ustring | JOther ustring

record tool_call =
  tc_id :: ustring
  tc_name :: ustring
  tc_arguments :: "(ustring \<times> jvalue) list"

record response =
  resp_content :: "ustring option"
  resp_tool_calls :: "tool_call list"
  resp_reasoning_content :: "ustring option"

text \<open>
  A message of the conversation: a plain one (role and content; content \<open>None\<close> when it
  is not a string), an assistant turn (content, tool-call dictionaries as id, name and
  serialised arguments, reasoning content), or a tool result (call id, name, result).
\<close>

datatype message =
    Plain ustring "ustring option"
  | AssistantMsg "ustring option" "(ustring \<times> ustring \<times> ustring) list" "ustring option"
  | ToolMsg ustring ustring "ustring option"

text \<open>
  The collaborators of one turn: the Chat Provider, the Tool Registry, the JSON
  serialiser, the two oracle-backed helpers \<^verbatim>\<open>_compress_state\<close> and
  \<^verbatim>\<open>_check_sufficiency\<close>, the case mapping of \<^verbatim>\<open>str.lower()\<close>, and whether a
  progress callback was passed. Provider and registry report failures as content, so
  they are total functions here.
\<close>

record env =
  chat :: "message list \<Rightarrow> response"
  execute :: "ustring \<Rightarrow> (ustring \<times> jvalue) list \<Rightarrow> ustring option"
  dumps :: "(ustring \<times> jvalue) list \<Rightarrow> ustring"
  compress_state :: "ustring list \<Rightarrow> ustring list \<Rightarrow> ustring list \<Rightarrow> ustring option \<Rightarrow> ustring option"
  check_sufficiency :: "ustring \<Rightarrow> ustring list \<Rightarrow> bool"
  lower :: "ustring \<Rightarrow> ustring"
  on_progress :: bool

text \<open>The local variables of \<^verbatim>\<open>_run_agent_loop\<close>, and the progress strings emitted.\<close>

record loop_state =
  messages :: "message list"
  iteration :: nat
  final_content :: "ustring option"
  tools_used :: "ustring list"
  tool_trace :: "ustring list"
  reasoning_snippets :: "ustring list"
  consecutive_errors :: nat
  total_errors :: nat
  failed_directions :: "ustring list"
  last_state_at :: nat
  last_state_text :: "ustring option"
  progress :: "ustring list"

definition ERROR_KEYWORDS :: "ustring list" where
  "ERROR_KEYWORDS = [(lit ''error:''), (lit ''traceback''), (lit ''failed''), (lit ''exception''), (lit ''permission denied'')]"

subsection \<open>\<^verbatim>\<open>_strip_think\<close> and \<^verbatim>\<open>_tool_hint\<close>\<close>

fun find_after :: "ustring \<Rightarrow> ustring \<Rightarrow> ustring option" where
  "find_after pat [] = (if pat = [] then Some [] else None)"
| "find_after pat (c # cs) =
     (if startswith (c # cs) pat then Some (drop (length pat) (c # cs))
      else find_after pat cs)"

lemma find_after_length: "find_after pat s = Some r \<Longrightarrow> length r \<le> length s"
  by (induction s) (auto split: if_splits)

text \<open>
  \<^verbatim>\<open>re.sub(r"<think>[\s\S]*?</think>", "", text)\<close>: scanning from the left, each
  \<^verbatim>\<open><think>\<close> that has a closing tag after it is removed up to the first such tag.
\<close>

function remove_think :: "ustring \<Rightarrow> ustring" where
  "remove_think [] = []"
| "remove_think (c # cs) =
     (if startswith (c # cs) (lit ''<think>'')
      then (case find_after (lit ''</think>'') (drop 7 (c # cs)) of
              Some rest \<Rightarrow> remove_think rest
            | None \<Rightarrow> c # remove_think cs)
      else c # remove_think cs)"
  by pat_completeness auto
termination
proof (relation "measure length")
  fix c :: uchar and cs rest :: ustring
  assume "find_after (lit ''</think>'') (drop 7 (c # cs)) = Some rest"
  then have "length rest \<le> length (drop 7 (c # cs))"
    by (rule find_after_length)
  then show "(rest, c # cs) \<in> measure length"
    by simp
qed auto

definition strip_think :: "ustring option \<Rightarrow> ustring option" where
  "strip_think text =
     (case text of
        None \<Rightarrow> None
      | Some t \<Rightarrow>
          if t = [] then None
          else (let r = strip (remove_think t) in if r = [] then None else Some r))"

text \<open>
  The three literals of \<^verbatim>\<open>loop.py\<close> outside ASCII, code point by code point as the
  file has them: each is the three code points that the UTF-8 bytes of an ellipsis, of
  a rightwards arrow and of an em dash give when they are read as Windows-1252.
\<close>

definition ellipsis :: ustring where
  "ellipsis = [code_point 0xE2, code_point 0x20AC, code_point 0xA6]"

definition arrow :: ustring where
  "arrow = [code_point 0xE2, code_point 0x2020, code_point 0x2019]"

definition em_dash :: ustring where
  "em_dash = [code_point 0xE2, code_point 0x20AC, code_point 0x201D]"

definition fmt_hint :: "tool_call \<Rightarrow> ustring" where
  "fmt_hint tc =
     (case tc_arguments tc of
        (_, JStr val) # _ \<Rightarrow>
          if length val > 40 then tc_name tc @ (lit ''(\"'') @ take 40 val @ ellipsis @ (lit ''\")'')
          else tc_name tc @ (lit ''(\"'') @ val @ (lit ''\")'')
      | _ \<Rightarrow> tc_name tc)"

definition tool_hint :: "tool_call list \<Rightarrow> ustring" where
  "tool_hint tcs = join (lit '', '') (map fmt_hint tcs)"

subsection \<open>One tool execution, one round, the loop\<close>

definition has_error :: "(ustring \<Rightarrow> ustring) \<Rightarrow> ustring option \<Rightarrow> bool" where
  "has_error low result =
     (case result of
        None \<Rightarrow> False
      | Some r \<Rightarrow> list_ex (\<lambda>kw. contains (low r) kw) ERROR_KEYWORDS)"

text \<open>\<^verbatim>\<open>str(next(iter(tool_call.arguments.values()), "")) if arguments else ""\<close>\<close>

definition first_arg :: "tool_call \<Rightarrow> ustring" where
  "first_arg tc =
     (case tc_arguments tc of
        [] \<Rightarrow> []
      | (_, JStr v) # _ \<Rightarrow> v
      | (_, JOther v) # _ \<Rightarrow> v)"

text \<open>The body of \<^verbatim>\<open>for tool_call in response.tool_calls\<close>.\<close>

definition exec_tool :: "env \<Rightarrow> loop_state \<Rightarrow> tool_call \<Rightarrow> loop_state" where
  "exec_tool E s tc =
     (let args_str = dumps E (tc_arguments tc);
          result = execute E (tc_name tc) (tc_arguments tc);
          err = has_error (lower E) result;
          entry = tc_name tc @ (lit ''('') @ take 60 args_str @ (lit '') '') @ arrow @ (lit '' '')
                  @ (if err then (lit ''ERROR'') else (lit ''ok'')) @ (lit '': '')
                  @ take 100 (case result of None \<Rightarrow> [] | Some r \<Rightarrow> r);
          s1 = s\<lparr>tools_used := tools_used s @ [tc_name tc],
                 messages := messages s @ [ToolMsg (tc_id tc) (tc_name tc) result],
                 tool_trace := tool_trace s @ [entry]\<rparr>
      in if err
         then s1\<lparr>total_errors := total_errors s1 + 1,
                 consecutive_errors := consecutive_errors s1 + 1,
                 failed_directions :=
                   failed_directions s1 @ [tc_name tc @ (lit ''('') @ take 80 (first_arg tc) @ (lit '')'')]\<rparr>
         else s1\<lparr>consecutive_errors := 0\<rparr>)"

definition exec_tools :: "env \<Rightarrow> loop_state \<Rightarrow> tool_call list \<Rightarrow> loop_state" where
  "exec_tools E s tcs = foldl (exec_tool E) s tcs"

definition escalated_feedback :: "ustring list \<Rightarrow> ustring" where
  "escalated_feedback fd =
     (lit ''Multiple tool errors occurred. STOP retrying the same approach.'') @ [Ch (CHR 0x0A)]
     @ (lit ''Failed directions so far: '') @ join (lit ''; '') (last_n 5 fd) @ [Ch (CHR 0x0A)]
     @ (lit ''Try a completely different strategy.'')"

definition mild_feedback :: "ustring list \<Rightarrow> ustring" where
  "mild_feedback fd =
     (lit ''The tool returned an error. Analyze what went wrong and try a different approach.'')
     @ (if length fd > 1
        then [Ch (CHR 0x0A)] @ (lit ''Already tried and failed: '') @ join (lit ''; '') (last_n 3 fd)
        else [])"

definition error_feedback :: "loop_state \<Rightarrow> ustring option" where
  "error_feedback s =
     (if consecutive_errors s \<ge> 3 then Some (escalated_feedback (failed_directions s))
      else if consecutive_errors s > 0 then Some (mild_feedback (failed_directions s))
      else None)"

definition report_progress :: "env \<Rightarrow> loop_state \<Rightarrow> response \<Rightarrow> loop_state" where
  "report_progress E s r =
     (if on_progress E
      then (let s1 = (case strip_think (resp_content r) of
                        None \<Rightarrow> s
                      | Some clean \<Rightarrow>
                          s\<lparr>reasoning_snippets := reasoning_snippets s @ [take 200 clean],
                            progress := progress s @ [clean]\<rparr>)
            in s1\<lparr>progress := progress s1 @ [tool_hint (resp_tool_calls r)]\<rparr>)
      else s)"

definition add_assistant_message :: "message list \<Rightarrow> response \<Rightarrow> env \<Rightarrow> message list" where
  "add_assistant_message ms r E =
     ms @ [AssistantMsg (resp_content r)
             (map (\<lambda>tc. (tc_id tc, tc_name tc, dumps E (tc_arguments tc))) (resp_tool_calls r))
             (if resp_reasoning_content r = Some [] then None else resp_reasoning_content r)]"

text \<open>The branch \<^verbatim>\<open>if response.has_tool_calls\<close> of one iteration.\<close>

definition tool_round :: "env \<Rightarrow> loop_state \<Rightarrow> response \<Rightarrow> loop_state" where
  "tool_round E s r =
     (let s0 = report_progress E s r;
          s1 = s0\<lparr>messages := add_assistant_message (messages s0) r E\<rparr>;
          s2 = exec_tools E s1 (resp_tool_calls r)
      in case error_feedback s2 of
           None \<Rightarrow> s2
         | Some f \<Rightarrow> s2\<lparr>messages := messages s2 @ [Plain (lit ''user'') (Some f)]\<rparr>)"

definition checkpoint :: "env \<Rightarrow> loop_state \<Rightarrow> loop_state" where
  "checkpoint E s =
     (if int (length (tool_trace s)) - int (last_state_at s) \<ge> 5 \<and> length (tool_trace s) \<ge> 5
      then (case compress_state E (tool_trace s) (reasoning_snippets s) (failed_directions s)
                   (last_state_text s) of
              None \<Rightarrow> s
            | Some st \<Rightarrow>
                if st = [] then s
                else s\<lparr>messages := messages s @
                         [Plain (lit ''user'') (Some ((lit ''[State after '') @ py_str (int (length (tool_trace s)))
                            @ (lit '' steps]'') @ [Ch (CHR 0x0A)] @ st @ [Ch (CHR 0x0A), Ch (CHR 0x0A)]
                            @ (lit ''Use this state freely '') @ em_dash
                            @ (lit '' adopt useful parts, ignore irrelevant ones, and prioritize unexplored branches.'')))],
                       last_state_at := length (tool_trace s),
                       last_state_text := Some st\<rparr>)
      else s)"

definition sufficiency :: "env \<Rightarrow> ustring \<Rightarrow> loop_state \<Rightarrow> loop_state" where
  "sufficiency E user_request s =
     (if length (tool_trace s) \<ge> 8 \<and> length (tool_trace s) mod 4 = 0
         \<and> check_sufficiency E user_request (tool_trace s)
      then s\<lparr>messages := messages s @
               [Plain (lit ''user'') (Some (lit ''You now have sufficient information. Provide your final answer.''))]\<rparr>
      else s)"

definition user_request_of :: "message list \<Rightarrow> ustring" where
  "user_request_of initial_messages =
     (case filter (\<lambda>m. case m of Plain r (Some c) \<Rightarrow> r = (lit ''user'') | _ \<Rightarrow> False)
             (rev initial_messages) of
        Plain r (Some c) # _ \<Rightarrow> c
      | _ \<Rightarrow> [])"

definition init_state :: "message list \<Rightarrow> loop_state" where
  "init_state initial_messages =
     \<lparr>messages = initial_messages, iteration = 0, final_content = None, tools_used = [],
      tool_trace = [], reasoning_snippets = [], consecutive_errors = 0, total_errors = 0,
      failed_directions = [], last_state_at = 0, last_state_text = None, progress = []\<rparr>"

lemma iteration_exec_tool [simp]: "iteration (exec_tool E s tc) = iteration s"
  by (simp add: exec_tool_def Let_def)

lemma iteration_exec_tools [simp]: "iteration (exec_tools E s tcs) = iteration s"
  unfolding exec_tools_def by (induction tcs arbitrary: s) simp_all

lemma iteration_tool_round [simp]: "iteration (tool_round E s r) = iteration s"
  by (simp add: tool_round_def report_progress_def Let_def split: option.splits)

lemma iteration_checkpoint [simp]: "iteration (checkpoint E s) = iteration s"
  by (simp add: checkpoint_def split: option.splits)

lemma iteration_sufficiency [simp]: "iteration (sufficiency E u s) = iteration s"
  by (simp add: sufficiency_def)

text \<open>\<^verbatim>\<open>while iteration < self.max_iterations\<close>\<close>

function run_loop :: "env \<Rightarrow> int \<Rightarrow> ustring \<Rightarrow> loop_state \<Rightarrow> loop_state" where
  "run_loop E max_iterations user_request s =
     (if int (iteration s) < max_iterations
      then (let s1 = sufficiency E user_request (checkpoint E (s\<lparr>iteration := iteration s + 1\<rparr>));
                r = chat E (messages s1)
            in if resp_tool_calls r \<noteq> []
               then run_loop E max_iterations user_request (tool_round E s1 r)
               else s1\<lparr>final_content := strip_think (resp_content r)\<rparr>)
      else s)"
  by pat_completeness auto
termination
  by (relation "measure (\<lambda>(E, m, u, s). nat (m - int (iteration s)))") auto

declare run_loop.simps [simp del]

text \<open>
  \<^verbatim>\<open>_run_agent_loop\<close>: final content, tools used, tool trace, total errors and
  reasoning snippets of the final state.
\<close>

definition run_agent_loop ::
  "env \<Rightarrow> int \<Rightarrow> message list \<Rightarrow> ustring option \<times> ustring list \<times> ustring list \<times> nat \<times> ustring list" where
  "run_agent_loop E max_iterations initial_messages =
     (let s = run_loop E max_iterations (user_request_of initial_messages)
                (init_state initial_messages)
      in (final_content s, tools_used s, tool_trace s, total_errors s, reasoning_snippets s))"

subsection \<open>The error streak of a sequence of tool results\<close>

text \<open>
  The number of consecutive error results at the end of a sequence of classified tool
  results (\<open>True\<close> is an error), continuing a streak of \<open>c\<close> when every result of
  the sequence is an error.
\<close>

definition error_streak :: "nat \<Rightarrow> bool list \<Rightarrow> nat" where
  "error_streak c errs =
     (if list_all id errs then c + length errs else length (takeWhile id (rev errs)))"

definition tool_errors :: "env \<Rightarrow> tool_call list \<Rightarrow> bool list" where
  "tool_errors E tcs = map (\<lambda>tc. has_error (lower E) (execute E (tc_name tc) (tc_arguments tc))) tcs"

definition demo_call :: "ustring \<Rightarrow> ustring \<Rightarrow> tool_call" where
  "demo_call name arg = \<lparr>tc_id = (lit ''call_'') @ arg, tc_name = name, tc_arguments = [((lit ''path''), JStr arg)]\<rparr>"

definition demo_env :: "tool_call list \<Rightarrow> env" where
  "demo_env tcs =
     \<lparr>chat = (\<lambda>ms. \<lparr>resp_content = Some (lit ''working''), resp_tool_calls = tcs,
                      resp_reasoning_content = None\<rparr>),
      execute = (\<lambda>name args. if name = (lit ''read_file'') then Some (lit ''file contents'')
                              else Some (lit ''Error: command not found'')),
      dumps = (\<lambda>args. (lit ''{}'')),
      compress_state = (\<lambda>trace snippets failed prev. None),
      check_sufficiency = (\<lambda>req trace. False),
      lower = ascii_lower,
      on_progress = False\<rparr>"

definition demo_messages :: "message list" where
  "demo_messages = [Plain (lit ''system'') (Some (lit ''You are rodbot.'')), Plain (lit ''user'') (Some (lit ''list the files''))]"

definition demo_round :: "tool_call list" where
  "demo_round = [demo_call (lit ''exec'') (lit ''a''), demo_call (lit ''exec'') (lit ''b''),
                 demo_call (lit ''read_file'') (lit ''c''), demo_call (lit ''exec'') (lit ''d'')]"


section \<open>The experience store (\<^verbatim>\<open>agent/memory.py\<close>)\<close>

subsection \<open>The table and its rows\<close>

text \<open>
  A row of the \<^verbatim>\<open>memory\<close> table has the four string columns of its schema. The table
  is a list in insertion order: \<^verbatim>\<open>add\<close> appends, \<^verbatim>\<open>delete("key = 'k'")\<close> drops every
  row with that key, and \<^verbatim>\<open>search().where("type = 'experience'").limit(n).to_list()\<close>
  returns the first \<open>n\<close> experience rows. The vector table written by
  \<^verbatim>\<open>_embed_and_store\<close> is read only through the semantic search, a parameter of
  \<^verbatim>\<open>search_experience\<close> below. A failure of the storage layer, which every
  operation catches and answers with an empty result, is not part of the model, and
  Python's floating-point numbers (ages, scores, confidences, thresholds) are real
  numbers here.
\<close>

record row =
  key :: ustring
  content :: ustring
  rtype :: ustring
  updated_at :: ustring

type_synonym table = "row list"

definition experience_rows :: "nat \<Rightarrow> table \<Rightarrow> row list" where
  "experience_rows n tbl = take n (filter (\<lambda>r. rtype r = (lit ''experience'')) tbl)"

definition delete_key :: "ustring \<Rightarrow> table \<Rightarrow> table" where
  "delete_key k tbl = filter (\<lambda>x. key x \<noteq> k) tbl"

text \<open>
  The clock: the current time in seconds, and \<^verbatim>\<open>datetime.fromisoformat\<close>, which gives
  the instant of a timestamp, or \<open>None\<close> where it raises or where the instant cannot be
  subtracted from the current time.
\<close>

record clock =
  now :: real
  fromisoformat :: "ustring \<Rightarrow> real option"

subsection \<open>Field parsing\<close>

definition field_tag :: "ustring \<Rightarrow> ustring" where
  "field_tag field = (lit ''['') @ field @ (lit '']'')"

fun parse_int_lines :: "ustring list \<Rightarrow> ustring \<Rightarrow> int \<Rightarrow> int" where
  "parse_int_lines [] field dflt = dflt"
| "parse_int_lines (line # ls) field dflt =
     (if startswith line (field_tag field)
      then (case py_int (strip (after_bracket line)) of
              Some v \<Rightarrow> v
            | None \<Rightarrow> parse_int_lines ls field dflt)
      else parse_int_lines ls field dflt)"

definition parse_int_field :: "ustring \<Rightarrow> ustring \<Rightarrow> int \<Rightarrow> int" where
  "parse_int_field c field dflt = parse_int_lines (split_nl c) field dflt"

definition parse_quality :: "ustring \<Rightarrow> int" where
  "parse_quality c = parse_int_field c (lit ''Quality'') 3"

text \<open>The first line that starts with the tag is replaced; \<open>None\<close> when there is none.\<close>

fun replace_first :: "ustring list \<Rightarrow> ustring \<Rightarrow> ustring \<Rightarrow> ustring list option" where
  "replace_first [] tag new = None"
| "replace_first (l # ls) tag new =
     (if startswith l tag then Some (new # ls)
      else map_option ((#) l) (replace_first ls tag new))"

definition set_field :: "ustring \<Rightarrow> ustring \<Rightarrow> ustring \<Rightarrow> ustring" where
  "set_field c field v =
     (let lines = split_nl c; new = field_tag field @ (lit '' '') @ v
      in case replace_first lines (field_tag field) new of
           Some ls \<Rightarrow> join [Ch (CHR 0x0A)] ls
         | None \<Rightarrow> join [Ch (CHR 0x0A)] (lines @ [new]))"

fun parse_field_lines :: "ustring list \<Rightarrow> ustring \<Rightarrow> ustring" where
  "parse_field_lines [] field = []"
| "parse_field_lines (line # ls) field =
     (if startswith line (field_tag field) then strip (after_bracket line)
      else parse_field_lines ls field)"

definition parse_field :: "ustring \<Rightarrow> ustring \<Rightarrow> ustring" where
  "parse_field c field = parse_field_lines (split_nl c) field"

definition days_since :: "clock \<Rightarrow> ustring \<Rightarrow> real" where
  "days_since clk ts =
     (if ts = [] then 30
      else (case fromisoformat clk ts of
              None \<Rightarrow> 30
            | Some dt \<Rightarrow> max 0 ((now clk - dt) / 86400)))"

definition deprecated :: "ustring \<Rightarrow> bool" where
  "deprecated c = contains c (lit ''[Deprecated]'')"

subsection \<open>\<^verbatim>\<open>append_experience\<close>\<close>

text \<open>The argument \<open>ts\<close> is \<^verbatim>\<open>datetime.now().isoformat()\<close>.\<close>

definition experience_content ::
  "ustring \<Rightarrow> ustring \<Rightarrow> ustring \<Rightarrow> int \<Rightarrow> ustring \<Rightarrow> ustring \<Rightarrow> ustring \<Rightarrow> ustring" where
  "experience_content task outcome lessons quality category keywords reasoning_trace =
     (lit ''[Task] '') @ task @ [Ch (CHR 0x0A)] @ (lit ''[Outcome] '') @ outcome @ [Ch (CHR 0x0A)]
     @ (lit ''[Category] '') @ category @ [Ch (CHR 0x0A)] @ (lit ''[Quality] '') @ py_str quality @ [Ch (CHR 0x0A)]
     @ (lit ''[Uses] 0'') @ [Ch (CHR 0x0A)] @ (lit ''[Successes] 0'') @ [Ch (CHR 0x0A)] @ (lit ''[Lessons] '') @ lessons
     @ (if keywords \<noteq> [] then [Ch (CHR 0x0A)] @ (lit ''[Keywords] '') @ keywords else [])
     @ (if reasoning_trace \<noteq> [] then [Ch (CHR 0x0A)] @ (lit ''[Trace] '') @ reasoning_trace else [])"

definition append_experience ::
  "table \<Rightarrow> ustring \<Rightarrow> ustring \<Rightarrow> ustring \<Rightarrow> ustring \<Rightarrow> int \<Rightarrow> ustring \<Rightarrow> ustring \<Rightarrow> ustring \<Rightarrow> table" where
  "append_experience tbl ts task outcome lessons quality category keywords reasoning_trace =
     tbl @ [\<lparr>key = (lit ''experience_'') @ ts,
             content = experience_content task outcome lessons quality category keywords
                         reasoning_trace,
             rtype = (lit ''experience''), updated_at = ts\<rparr>]"

subsection \<open>Keyword matching\<close>

text \<open>
  \<^verbatim>\<open>{w.lower() for w in text.split() if len(w) >= 2}\<close>, as a duplicate-free list, and
  the number of these keywords that occur in the lowercased content; \<open>low\<close> is the
  case mapping of \<^verbatim>\<open>str.lower()\<close>. The comparison of
  the hit count with \<^verbatim>\<open>len(keywords) * threshold\<close> is taken over the reals.
\<close>

definition keywords_of :: "(ustring \<Rightarrow> ustring) \<Rightarrow> ustring \<Rightarrow> ustring list" where
  "keywords_of low text = remdups (map low (filter (\<lambda>w. length w \<ge> 2) (split_ws text)))"

definition hits :: "(ustring \<Rightarrow> ustring) \<Rightarrow> ustring list \<Rightarrow> ustring \<Rightarrow> nat" where
  "hits low kws c = length (filter (\<lambda>kw. contains (low c) kw) kws)"

definition match_experience_rows :: "(ustring \<Rightarrow> ustring) \<Rightarrow> table \<Rightarrow> ustring \<Rightarrow> real \<Rightarrow> row list" where
  "match_experience_rows low tbl task_desc threshold =
     (let rows = experience_rows 100 tbl; kws = keywords_of low task_desc
      in if kws = [] then []
         else filter (\<lambda>r. \<not> deprecated (content r)
                           \<and> real (length kws) * threshold \<le> real (hits low kws (content r))) rows)"

definition update_experience_row :: "table \<Rightarrow> row \<Rightarrow> ustring \<Rightarrow> table" where
  "update_experience_row tbl r new_content =
     (if key r \<noteq> []
      then delete_key (key r) tbl @
             [\<lparr>key = key r, content = new_content, rtype = (lit ''experience''),
               updated_at = updated_at r\<rparr>]
      else tbl)"

subsection \<open>\<^verbatim>\<open>deprecate_similar\<close> and \<^verbatim>\<open>record_reuse\<close>\<close>


text \<open>
  The content \<^verbatim>\<open>record_reuse\<close> writes back for a matched row. The confidence
  \<^verbatim>\<open>successes / uses\<close> and its comparisons with 0.8 and 0.4 are taken over the reals.
\<close>

definition reuse_content :: "ustring \<Rightarrow> bool \<Rightarrow> ustring" where
  "reuse_content c success =
     (let uses = parse_int_field c (lit ''Uses'') 0 + 1;
          successes = parse_int_field c (lit ''Successes'') 0 + (if success then 1 else 0);
          updated = set_field (set_field c (lit ''Uses'') (py_str uses)) (lit ''Successes'') (py_str successes)
      in if uses \<ge> 3
         then (let conf = (of_int successes / of_int uses :: real);
                   current_q = parse_quality updated;
                   new_q = (if conf \<ge> 0.8 then min 5 (current_q + 1)
                            else if conf < 0.4 then max 1 (current_q - 1)
                            else current_q)
               in set_field updated (lit ''Quality'') (py_str new_q))
         else updated)"

definition record_reuse :: "(ustring \<Rightarrow> ustring) \<Rightarrow> table \<Rightarrow> ustring \<Rightarrow> bool \<Rightarrow> table \<times> nat" where
  "record_reuse low tbl task_desc success =
     (let ms = match_experience_rows low tbl task_desc 0.4
      in (foldl (\<lambda>t r. update_experience_row t r (reuse_content (content r) success)) tbl ms,
          length ms))"

subsection \<open>\<^verbatim>\<open>cleanup_stale\<close>\<close>

definition should_remove :: "clock \<Rightarrow> int \<Rightarrow> int \<Rightarrow> row \<Rightarrow> bool" where
  "should_remove clk max_deprecated_days max_low_quality_days r =
     (let days_old = days_since clk (updated_at r)
      in (deprecated (content r) \<and> days_old > of_int max_deprecated_days)
         \<or> (parse_quality (content r) \<le> 1 \<and> days_old > of_int max_low_quality_days))"

definition cleanup_stale :: "clock \<Rightarrow> table \<Rightarrow> int \<Rightarrow> int \<Rightarrow> table \<times> nat" where
  "cleanup_stale clk tbl max_deprecated_days max_low_quality_days =
     (let stale = filter (\<lambda>r. should_remove clk max_deprecated_days max_low_quality_days r
                               \<and> key r \<noteq> [])
                    (experience_rows 500 tbl)
      in (foldl (\<lambda>t r. delete_key (key r) t) tbl stale, length stale))"

subsection \<open>\<^verbatim>\<open>get_merge_candidates\<close> and \<^verbatim>\<open>replace_merged\<close>\<close>

fun category_lines :: "ustring list \<Rightarrow> ustring" where
  "category_lines [] = (lit ''general'')"
| "category_lines (line # ls) =
     (if startswith line (lit ''[Category]'')
      then (let c = strip (after_bracket line) in if c = [] then (lit ''general'') else c)
      else category_lines ls)"

definition category_of :: "ustring \<Rightarrow> ustring" where
  "category_of c = category_lines (split_nl c)"

text \<open>\<^verbatim>\<open>groups.setdefault(cat, []).append(content)\<close> on a dictionary in insertion order.\<close>

fun group_add :: "(ustring \<times> ustring list) list \<Rightarrow> ustring \<Rightarrow> ustring \<Rightarrow> (ustring \<times> ustring list) list" where
  "group_add [] cat c = [(cat, [c])]"
| "group_add ((k, v) # g) cat c =
     (if k = cat then (k, v @ [c]) # g else (k, v) # group_add g cat c)"

definition get_merge_candidates :: "table \<Rightarrow> int \<Rightarrow> ustring list list" where
  "get_merge_candidates tbl min_count =
     (let rows = experience_rows 200 tbl;
          active = filter (\<lambda>r. \<not> deprecated (content r)) rows
      in if int (length active) < min_count then []
         else (let groups = foldl (\<lambda>g r. group_add g (category_of (content r)) (content r)) [] active
               in filter (\<lambda>entries. length entries \<ge> 3) (map snd groups)))"

text \<open>
  \<^verbatim>\<open>{r.get("content"): r.get("key") for r in rows}\<close>: for a content that several rows
  carry, the key of the last of them.
\<close>

definition content_to_key :: "row list \<Rightarrow> ustring \<Rightarrow> ustring option" where
  "content_to_key rows = map_of (rev (map (\<lambda>r. (content r, key r)) rows))"

definition replace_merged :: "table \<Rightarrow> ustring \<Rightarrow> ustring list \<Rightarrow> ustring \<Rightarrow> table" where
  "replace_merged tbl ts old_entries merged_content =
     (let c2k = content_to_key (experience_rows 200 tbl);
          tbl1 = foldl (\<lambda>t entry. case c2k entry of
                                     None \<Rightarrow> t
                                   | Some k \<Rightarrow> if k \<noteq> [] then delete_key k t else t)
                   tbl old_entries
      in tbl1 @ [\<lparr>key = (lit ''experience_merged_'') @ ts, content = merged_content,
                  rtype = (lit ''experience''), updated_at = ts\<rparr>])"

subsection \<open>\<^verbatim>\<open>search_experience\<close>\<close>

text \<open>
  The score \<^verbatim>\<open>quality * exp(-0.02 * days_old) * conf\<close> is taken over the reals.
\<close>

definition confidence :: "ustring \<Rightarrow> real" where
  "confidence c =
     (let uses = parse_int_field c (lit ''Uses'') 0; successes = parse_int_field c (lit ''Successes'') 0
      in if uses < 2 then 1 else of_int successes / of_int uses)"

definition score :: "clock \<Rightarrow> row \<Rightarrow> real" where
  "score clk r =
     of_int (parse_quality (content r)) * exp (- 0.02 * days_since clk (updated_at r))
       * confidence (content r)"

text \<open>
  The candidates. \<open>semantic query fetch\<close> is the list of contents the vector search
  returns for the query (empty when no embedding is configured or the search fails); its
  rows carry no timestamp. Otherwise the first 100 experience rows are filtered by keyword.
\<close>

definition candidates :: "(ustring \<Rightarrow> ustring) \<Rightarrow> (ustring \<Rightarrow> int \<Rightarrow> ustring list) \<Rightarrow> table \<Rightarrow> ustring \<Rightarrow> int \<Rightarrow> row list" where
  "candidates low semantic tbl query limit =
     (let vec = map (\<lambda>c. \<lparr>key = [], content = c, rtype = (lit ''experience''), updated_at = []\<rparr>)
                  (semantic query (limit * 5))
      in if vec \<noteq> [] then vec
         else (let rows = experience_rows 100 tbl; kws = keywords_of low query
               in if kws \<noteq> [] then filter (\<lambda>r. hits low kws (content r) > 0) rows else rows))"

definition scored :: "clock \<Rightarrow> row list \<Rightarrow> (real \<times> ustring) list" where
  "scored clk cands =
     map (\<lambda>r. (score clk r, content r)) (filter (\<lambda>r. \<not> deprecated (content r)) cands)"

definition is_failed :: "ustring \<Rightarrow> bool" where
  "is_failed c = (parse_field c (lit ''Outcome'') = (lit ''failed''))"

text \<open>\<^verbatim>\<open>xs.sort(key=lambda x: x[0], reverse=True)\<close>: descending and stable.\<close>

definition sort_desc :: "(real \<times> ustring) list \<Rightarrow> (real \<times> ustring) list" where
  "sort_desc xs = sort_key (\<lambda>x. - fst x) xs"

definition warnings_of :: "(real \<times> ustring) list \<Rightarrow> (real \<times> ustring) list" where
  "warnings_of sc = sort_desc (filter (\<lambda>x. is_failed (snd x)) sc)"

definition positive_of :: "(real \<times> ustring) list \<Rightarrow> (real \<times> ustring) list" where
  "positive_of sc = sort_desc (filter (\<lambda>x. \<not> is_failed (snd x)) sc)"

definition conflict_marker :: "ustring \<Rightarrow> ustring \<Rightarrow> ustring \<Rightarrow> ustring" where
  "conflict_marker cat prev_outcome outcome =
     [code_point 0x26A1] @ (lit '' CONFLICTING experience (category '')
     @ [Ch (CHR 0x27)] @ cat @ [Ch (CHR 0x27)] @ (lit '' has both '') @ prev_outcome @ (lit '' and '') @ outcome
     @ (lit ''):'') @ [Ch (CHR 0x0A)]"

definition warning_marker :: ustring where
  "warning_marker =
     [code_point 0x26A0, code_point 0xFE0F]
     @ (lit '' WARNING from past failure:'') @ [Ch (CHR 0x0A)]"

text \<open>The loop over the positive entries, with \<^verbatim>\<open>seen_categories\<close> and \<^verbatim>\<open>results\<close>.\<close>

fun select_positive ::
  "int \<Rightarrow> (ustring \<rightharpoonup> ustring) \<Rightarrow> ustring list \<Rightarrow> (real \<times> ustring) list \<Rightarrow> ustring list" where
  "select_positive limit seen results [] = results"
| "select_positive limit seen results (x # rest) =
     (if int (length results) \<ge> limit - 1 then results
      else (let c = snd x;
                cat = (if parse_field c (lit ''Category'') = [] then (lit ''general'')
                       else parse_field c (lit ''Category''));
                outcome = parse_field c (lit ''Outcome'');
                entry = (case seen cat of
                           None \<Rightarrow> c
                         | Some prev_outcome \<Rightarrow>
                             if prev_outcome \<noteq> [] \<and> prev_outcome \<noteq> outcome
                             then conflict_marker cat prev_outcome outcome @ c
                             else c);
                seen' = (if seen cat = None then seen(cat \<mapsto> outcome) else seen)
            in select_positive limit seen' (results @ [entry]) rest))"

text \<open>\<^verbatim>\<open>xs[:n]\<close> for an integer \<open>n\<close>: a negative \<open>n\<close> counts from the end.\<close>

definition slice_to :: "int \<Rightarrow> 'a list \<Rightarrow> 'a list" where
  "slice_to n xs = (if n \<ge> 0 then take (nat n) xs else take (length xs - nat (- n)) xs)"

definition search_experience ::
  "(ustring \<Rightarrow> ustring) \<Rightarrow> (ustring \<Rightarrow> int \<Rightarrow> ustring list) \<Rightarrow> clock \<Rightarrow> table \<Rightarrow> ustring \<Rightarrow> int \<Rightarrow> ustring list" where
  "search_experience low semantic clk tbl query limit =
     (let sc = scored clk (candidates low semantic tbl query limit);
          results = select_positive limit Map.empty [] (positive_of sc)
      in slice_to limit
           (case warnings_of sc of
              [] \<Rightarrow> results
            | w # _ \<Rightarrow> results @ [warning_marker @ snd w]))"

section \<open>Sequences of store operations and example stores\<close>

text \<open>
  The two operations of the quality invariant, with the arguments of the calls
  (\<open>ts\<close> is the timestamp taken by \<^verbatim>\<open>append_experience\<close>), and their effect on
  the table.
\<close>

datatype store_op =
    Append ustring ustring ustring ustring int ustring ustring ustring
  | Reuse ustring bool

fun apply_op :: "(ustring \<Rightarrow> ustring) \<Rightarrow> table \<Rightarrow> store_op \<Rightarrow> table" where
  "apply_op low tbl (Append ts task outcome lessons quality category keywords reasoning_trace) =
     append_experience tbl ts task outcome lessons quality category keywords reasoning_trace"
| "apply_op low tbl (Reuse task_desc success) = fst (record_reuse low tbl task_desc success)"

text \<open>
  \<^verbatim>\<open>max(1, min(5, int(result.get("quality", 3))))\<close>: the quality that
  \<^verbatim>\<open>_summarize_experience\<close> of the agent loop passes to \<^verbatim>\<open>append_experience\<close>, from
  the integer the extraction returned. The task, outcome and category it passes are the
  texts the extraction returned, unchanged.
\<close>

definition summarized_quality :: "int \<Rightarrow> int" where
  "summarized_quality q = max 1 (min 5 q)"

text \<open>
  The operations whose \<^verbatim>\<open>append_experience\<close> arguments are a quality between 1 and 5
  and a task, an outcome and a category of one line each.
\<close>

fun clamped_op :: "store_op \<Rightarrow> bool" where
  "clamped_op (Append ts task outcome lessons quality category keywords reasoning_trace) =
     (1 \<le> quality \<and> quality \<le> 5 \<and> Ch (CHR 0x0A) \<notin> set task \<and> Ch (CHR 0x0A) \<notin> set outcome
      \<and> Ch (CHR 0x0A) \<notin> set category)"
| "clamped_op (Reuse task_desc success) = True"

definition quality_in_range :: "table \<Rightarrow> bool" where
  "quality_in_range tbl =
     list_all (\<lambda>r. 1 \<le> parse_quality (content r) \<and> parse_quality (content r) \<le> 5)
       (filter (\<lambda>r. rtype r = (lit ''experience'')) tbl)"

text \<open>Example records: a content with given counters, and a store of \<open>n\<close> unrelated records.\<close>

definition demo_content :: "ustring \<Rightarrow> ustring \<Rightarrow> int \<Rightarrow> int \<Rightarrow> int \<Rightarrow> ustring" where
  "demo_content task outcome quality uses successes =
     (lit ''[Task] '') @ task @ [Ch (CHR 0x0A)] @ (lit ''[Outcome] '') @ outcome @ [Ch (CHR 0x0A)]
     @ (lit ''[Category] coding'') @ [Ch (CHR 0x0A)] @ (lit ''[Quality] '') @ py_str quality @ [Ch (CHR 0x0A)]
     @ (lit ''[Uses] '') @ py_str uses @ [Ch (CHR 0x0A)] @ (lit ''[Successes] '') @ py_str successes @ [Ch (CHR 0x0A)]
     @ (lit ''[Lessons] resolve conflicts file by file'')"

definition demo_row :: row where
  "demo_row = \<lparr>key = (lit ''experience_2026-01-05T10:00:00''),
               content = demo_content (lit ''git rebase conflict'') (lit ''success'') 3 2 2,
               rtype = (lit ''experience''), updated_at = (lit ''2026-01-05T10:00:00'')\<rparr>"

definition bulk_content :: ustring where
  "bulk_content = demo_content (lit ''update the readme'') (lit ''success'') 3 0 0"

definition bulk_rows :: "nat \<Rightarrow> row list" where
  "bulk_rows n =
     map (\<lambda>i. \<lparr>key = (lit ''experience_bulk_'') @ py_str (int i), content = bulk_content,
                rtype = (lit ''experience''), updated_at = (lit ''2026-01-01T09:00:00'')\<rparr>) [0..<n]"

text \<open>A clock at which a record stamped \<open>2026-01-05T10:00:00\<close> has a given age in days.\<close>

definition demo_clock :: "real \<Rightarrow> clock" where
  "demo_clock days =
     \<lparr>now = days * 86400,
      fromisoformat = (\<lambda>ts. if ts = (lit ''2026-01-05T10:00:00'') then Some 0
                            else if ts = (lit ''2026-01-01T09:00:00'') then Some (- 349200)
                            else None)\<rparr>"

definition deprecated_row :: row where
  "deprecated_row = demo_row\<lparr>content := (lit ''[Deprecated] '') @ content demo_row\<rparr>"

definition low_quality_row :: row where
  "low_quality_row =
     demo_row\<lparr>content := demo_content (lit ''git rebase conflict'') (lit ''partial'') 1 0 0\<rparr>"

definition coding_row :: "ustring \<Rightarrow> ustring \<Rightarrow> row" where
  "coding_row n task =
     \<lparr>key = (lit ''experience_2026-01-05T10:00:'') @ n, content = demo_content task (lit ''success'') 3 0 0,
      rtype = (lit ''experience''), updated_at = (lit ''2026-01-05T10:00:'') @ n\<rparr>"

definition coding_rows :: "row list" where
  "coding_rows = [coding_row (lit ''01'') (lit ''git rebase conflict''), coding_row (lit ''02'') (lit ''git merge conflict''),
                  coding_row (lit ''03'') (lit ''git stash conflict'')]"

text \<open>A store of five records of one category, the first two with the same content.\<close>

definition duplicate_rows :: "row list" where
  "duplicate_rows = [coding_row (lit ''01'') (lit ''git rebase conflict''), coding_row (lit ''02'') (lit ''git rebase conflict''),
                     coding_row (lit ''03'') (lit ''git merge conflict''), coding_row (lit ''04'') (lit ''git stash conflict''),
                     coding_row (lit ''05'') (lit ''git bisect conflict'')]"

text \<open>The active records that \<^const>\<open>get_merge_candidates\<close> groups, and those of one category.\<close>

definition active_rows :: "table \<Rightarrow> row list" where
  "active_rows tbl = filter (\<lambda>r. \<not> deprecated (content r)) (experience_rows 200 tbl)"

definition category_group :: "table \<Rightarrow> ustring \<Rightarrow> ustring list" where
  "category_group tbl cat =
     map content (filter (\<lambda>r. category_of (content r) = cat) (active_rows tbl))"

text \<open>
  The warning candidates of a search: the scored, non-deprecated candidates whose outcome
  is \<open>failed\<close>. A store with one successful and one failed record, and a search without
  semantic index.
\<close>

definition warning_candidates ::
  "(ustring \<Rightarrow> ustring) \<Rightarrow> (ustring \<Rightarrow> int \<Rightarrow> ustring list) \<Rightarrow> clock \<Rightarrow> table \<Rightarrow> ustring \<Rightarrow> int \<Rightarrow> (real \<times> ustring) list" where
  "warning_candidates low semantic clk tbl query limit =
     filter (\<lambda>x. is_failed (snd x)) (scored clk (candidates low semantic tbl query limit))"

definition failed_row :: row where
  "failed_row = \<lparr>key = (lit ''experience_2026-01-05T10:00:09''),
                 content = demo_content (lit ''git rebase onto main'') (lit ''failed'') 2 0 0,
                 rtype = (lit ''experience''), updated_at = (lit ''2026-01-05T10:00:00'')\<rparr>"

definition no_semantic :: "ustring \<Rightarrow> int \<Rightarrow> ustring list" where
  "no_semantic query fetch = []"

section \<open>Properties of the string primitives and of field parsing\<close>


lemma lit_eq_iff [simp]: "lit a = lit b \<longleftrightarrow> a = b"
  by (simp add: lit_def inj_map_eq_map inj_on_def)

lemma lit_eq_Nil [simp]: "lit s = [] \<longleftrightarrow> s = []" "[] = lit s \<longleftrightarrow> s = []"
  by (auto simp: lit_def)

lemma Ch_in_lit [simp]: "Ch c \<in> set (lit s) \<longleftrightarrow> c \<in> set s"
  by (auto simp: lit_def)

lemma Uni_notin_lit [simp]: "Uni n \<notin> set (lit s)"
  by (auto simp: lit_def)

lemma lit_Cons: "lit (c # s) = Ch c # lit s"
  by (simp add: lit_def)

lemma lit_append: "lit a @ lit b = lit (a @ b)"
  by (simp add: lit_def)

lemma lit_cons_neq: "a \<noteq> b \<Longrightarrow> lit (a # as) @ x \<noteq> lit (b # bs) @ y"
  by (simp add: lit_def)

lemma digit_cases: "(d::nat) < 10 \<Longrightarrow> d = 0 \<or> d = 1 \<or> d = 2 \<or> d = 3 \<or> d = 4 \<or> d = 5 \<or> d = 6 \<or> d = 7 \<or> d = 8 \<or> d = 9"
  by arith

lemma digit_char_props:
  assumes "d < 10"
  shows "digit_val (digit_char d) = d" and "is_digit (digit_char d)"
    and "\<not> is_space (digit_char d)" and "digit_char d \<noteq> Ch (CHR ''-'')" and "digit_char d \<noteq> Ch (CHR ''+'')"
    and "digit_char d \<noteq> Ch (CHR 0x0A)"
  using digit_cases[OF assms]
  by (auto simp: digit_val_def digit_char_def lit_def is_digit_def decimal_of_def is_space_def)

lemma str_nat_digits: "c \<in> set (str_nat n) \<Longrightarrow> \<exists>d<10. c = digit_char d"
proof (induction n arbitrary: c rule: str_nat.induct)
  case (1 n)
  show ?case
  proof (cases "n < 10")
    case True
    with "1.prems" show ?thesis by (auto simp: str_nat.simps[of n])
  next
    case False
    with "1.prems" have "c \<in> set (str_nat (n div 10)) \<or> c = digit_char (n mod 10)"
      by (auto simp: str_nat.simps[of n])
    then show ?thesis
    proof
      assume "c \<in> set (str_nat (n div 10))"
      with "1.IH"[OF False] show ?thesis by blast
    next
      assume "c = digit_char (n mod 10)"
      moreover have "n mod 10 < 10" by simp
      ultimately show ?thesis by blast
    qed
  qed
qed

lemma str_nat_nonempty: "str_nat n \<noteq> []"
  by (subst str_nat.simps) simp

lemma nat_of_digits_snoc: "nat_of_digits (ds @ [c]) = 10 * nat_of_digits ds + digit_val c"
  by (simp add: nat_of_digits_def)

lemma nat_of_digits_str_nat: "nat_of_digits (str_nat n) = n"
proof (induction n rule: str_nat.induct)
  case (1 n)
  show ?case
  proof (cases "n < 10")
    case True
    then show ?thesis
      by (simp add: str_nat.simps[of n] nat_of_digits_def digit_char_props)
  next
    case False
    have "n mod 10 < 10" by simp
    then have "digit_val (digit_char (n mod 10)) = n mod 10"
      by (rule digit_char_props)
    with False "1.IH" show ?thesis
      by (simp add: str_nat.simps[of n] nat_of_digits_snoc)
  qed
qed

lemma digit_groups_digits:
  "ds \<noteq> [] \<Longrightarrow> list_all is_digit ds \<Longrightarrow> digit_groups b ds"
  by (induction ds arbitrary: b) (auto, case_tac ds, auto)

lemma str_nat_all_digits: "list_all is_digit (str_nat n)"
  unfolding list_all_iff using str_nat_digits digit_char_props(2) by blast

lemma dropWhile_none: "list_all (\<lambda>c. \<not> P c) xs \<Longrightarrow> dropWhile P xs = xs"
  by (cases xs) auto

lemma strip_id: "list_all (\<lambda>c. \<not> is_space c) s \<Longrightarrow> strip s = s"
proof -
  assume a: "list_all (\<lambda>c. \<not> is_space c) s"
  then have "list_all (\<lambda>c. \<not> is_space c) (rev s)"
    by (simp add: list_all_iff)
  then have "dropWhile is_space (rev s) = rev s"
    by (rule dropWhile_none)
  moreover from a have "dropWhile is_space s = s"
    by (rule dropWhile_none)
  ultimately show ?thesis by (simp add: strip_def)
qed

lemma int_strip_id:
  "list_all (\<lambda>c. \<not> is_space c) s \<Longrightarrow> rev (dropWhile is_int_space (rev (dropWhile is_int_space s))) = s"
proof -
  assume "list_all (\<lambda>c. \<not> is_space c) s"
  then have a: "list_all (\<lambda>c. \<not> is_int_space c) s"
    by (simp add: list_all_iff is_int_space_def)
  then have "list_all (\<lambda>c. \<not> is_int_space c) (rev s)"
    by (simp add: list_all_iff)
  then have "dropWhile is_int_space (rev s) = rev s"
    by (rule dropWhile_none)
  moreover from a have "dropWhile is_int_space s = s"
    by (rule dropWhile_none)
  ultimately show ?thesis by simp
qed

lemma str_nat_no_space: "list_all (\<lambda>c. \<not> is_space c) (str_nat n)"
  unfolding list_all_iff using str_nat_digits digit_char_props(3) by blast

lemma py_str_no_space: "list_all (\<lambda>c. \<not> is_space c) (py_str i)"
  using str_nat_no_space by (simp add: py_str_def is_space_def)

lemma py_str_no_nl: "Ch (CHR 0x0A) \<notin> set (py_str i)"
  using py_str_no_space[of i] by (auto simp: list_all_iff is_space_def)

lemma py_str_nonempty: "py_str i \<noteq> []"
  by (simp add: py_str_def str_nat_nonempty)

lemma hd_str_nat: "hd (str_nat n) \<noteq> Ch (CHR ''-'') \<and> hd (str_nat n) \<noteq> Ch (CHR ''+'')"
proof -
  have "hd (str_nat n) \<in> set (str_nat n)"
    using str_nat_nonempty by simp
  then obtain d where "d < 10" "hd (str_nat n) = digit_char d"
    using str_nat_digits by blast
  then show ?thesis using digit_char_props(4,5) by simp
qed

lemma filter_digits_str_nat: "filter is_digit (str_nat n) = str_nat n"
  using str_nat_all_digits[of n] by (simp add: list_all_iff)

lemma py_int_py_str: "py_int (py_str i) = Some i"
proof (cases "i < 0")
  case True
  have s: "rev (dropWhile is_int_space (rev (dropWhile is_int_space (py_str i)))) = py_str i"
    by (rule int_strip_id) (rule py_str_no_space)
  have "digit_groups False (str_nat (nat (- i)))"
    by (rule digit_groups_digits) (simp_all add: str_nat_nonempty str_nat_all_digits)
  with True show ?thesis
    unfolding py_int_def s
    by (simp add: py_str_def Let_def filter_digits_str_nat nat_of_digits_str_nat)
next
  case False
  have s: "rev (dropWhile is_int_space (rev (dropWhile is_int_space (py_str i)))) = py_str i"
    by (rule int_strip_id) (rule py_str_no_space)
  have "digit_groups False (str_nat (nat i))"
    by (rule digit_groups_digits) (simp_all add: str_nat_nonempty str_nat_all_digits)
  with False show ?thesis
    unfolding py_int_def s
    by (simp add: py_str_def Let_def filter_digits_str_nat nat_of_digits_str_nat
          str_nat_nonempty hd_str_nat)
qed


lemma split_nl_nonempty [simp]: "split_nl s \<noteq> []"
  by (induction s) (auto split: list.splits)

lemma split_nl_no_nl: "l \<in> set (split_nl s) \<Longrightarrow> Ch (CHR 0x0A) \<notin> set l"
proof (induction s arbitrary: l)
  case Nil
  then show ?case by simp
next
  case (Cons c cs)
  show ?case
  proof (cases "c = Ch (CHR 0x0A)")
    case True
    with Cons show ?thesis by auto
  next
    case False
    obtain h t where e: "split_nl cs = h # t"
      by (cases "split_nl cs") simp_all
    with Cons.prems False have "l = c # h \<or> l \<in> set t"
      by simp
    then show ?thesis
    proof
      assume "l = c # h"
      moreover have "Ch (CHR 0x0A) \<notin> set h"
        using Cons.IH[of h] e by simp
      ultimately show ?thesis using False by simp
    next
      assume "l \<in> set t"
      then have "l \<in> set (split_nl cs)"
        using e by simp
      then show ?thesis by (rule Cons.IH)
    qed
  qed
qed

lemma split_nl_append: "split_nl (a @ Ch (CHR 0x0A) # b) = split_nl a @ split_nl b"
proof (induction a)
  case Nil
  show ?case by simp
next
  case (Cons c a)
  show ?case
  proof (cases "c = Ch (CHR 0x0A)")
    case True
    with Cons show ?thesis by simp
  next
    case False
    with Cons show ?thesis by (cases "split_nl a") simp_all
  qed
qed

lemma split_nl_single: "Ch (CHR 0x0A) \<notin> set p \<Longrightarrow> split_nl p = [p]"
  by (induction p) auto

lemma split_nl_line: "Ch (CHR 0x0A) \<notin> set p \<Longrightarrow> split_nl (p @ Ch (CHR 0x0A) # c) = p # split_nl c"
  by (simp add: split_nl_append split_nl_single)

lemma join_split_nl: "join [Ch (CHR 0x0A)] (split_nl s) = s"
proof (induction s)
  case Nil
  show ?case by simp
next
  case (Cons c cs)
  show ?case
  proof (cases "c = Ch (CHR 0x0A)")
    case True
    with Cons show ?thesis by (cases "split_nl cs") simp_all
  next
    case False
    obtain l ls where e: "split_nl cs = l # ls" by (cases "split_nl cs") simp_all
    with Cons have "join [Ch (CHR 0x0A)] (l # ls) = cs" by simp
    then have "join [Ch (CHR 0x0A)] ((c # l) # ls) = c # cs" by (cases ls) auto
    with False e show ?thesis by simp
  qed
qed

lemma split_nl_join:
  "ls \<noteq> [] \<Longrightarrow> list_all (\<lambda>l. Ch (CHR 0x0A) \<notin> set l) ls \<Longrightarrow> split_nl (join [Ch (CHR 0x0A)] ls) = ls"
proof (induction "[Ch (CHR 0x0A)]" ls rule: join.induct)
  case 1
  then show ?case by simp
next
  case (2 x)
  then show ?case by (simp add: split_nl_single)
next
  case (3 x y ys)
  then show ?case by (simp add: split_nl_line)
qed


lemma replace_first_Some:
  "replace_first ls tag new = Some ls' \<Longrightarrow> set ls' \<subseteq> insert new (set ls) \<and> ls' \<noteq> []"
  by (induction ls arbitrary: ls') (auto split: if_splits)

lemma field_tag_no_nl: "Ch (CHR 0x0A) \<notin> set f \<Longrightarrow> Ch (CHR 0x0A) \<notin> set (field_tag f)"
  by (simp add: field_tag_def lit_def)

lemma split_nl_set_field:
  assumes "Ch (CHR 0x0A) \<notin> set f" "Ch (CHR 0x0A) \<notin> set v"
  shows "split_nl (set_field c f v) =
     (case replace_first (split_nl c) (field_tag f) (field_tag f @ (lit '' '') @ v) of
        Some ls \<Rightarrow> ls
      | None \<Rightarrow> split_nl c @ [field_tag f @ (lit '' '') @ v])"
proof -
  let ?new = "field_tag f @ (lit '' '') @ v"
  have new: "Ch (CHR 0x0A) \<notin> set ?new"
    using assms by (simp add: field_tag_def lit_def)
  have old: "list_all (\<lambda>l. Ch (CHR 0x0A) \<notin> set l) (split_nl c)"
    unfolding list_all_iff using split_nl_no_nl by blast
  show ?thesis
  proof (cases "replace_first (split_nl c) (field_tag f) ?new")
    case None
    have "list_all (\<lambda>l. Ch (CHR 0x0A) \<notin> set l) (split_nl c @ [?new])"
      using old new by simp
    then have "split_nl (join [Ch (CHR 0x0A)] (split_nl c @ [?new])) = split_nl c @ [?new]"
      by (intro split_nl_join) simp_all
    with None show ?thesis by (simp add: set_field_def Let_def)
  next
    case (Some ls)
    from replace_first_Some[OF Some] old new
    have "ls \<noteq> []" "list_all (\<lambda>l. Ch (CHR 0x0A) \<notin> set l) ls"
      by (auto simp: list_all_iff)
    then have "split_nl (join [Ch (CHR 0x0A)] ls) = ls"
      by (rule split_nl_join)
    with Some show ?thesis by (simp add: set_field_def Let_def)
  qed
qed

lemma replace_first_None: "replace_first ls tag new = None \<longleftrightarrow> (\<forall>l\<in>set ls. \<not> startswith l tag)"
  by (induction ls) auto

lemma parse_int_lines_skip:
  "\<forall>l\<in>set ls. \<not> startswith l (field_tag g) \<Longrightarrow>
     parse_int_lines (ls @ rest) g d = parse_int_lines rest g d"
  by (induction ls) auto

lemma parse_int_lines_same:
  assumes "startswith new (field_tag f)" "py_int (strip (after_bracket new)) = Some v"
  shows "parse_int_lines
           (case replace_first ls (field_tag f) new of Some ls' \<Rightarrow> ls' | None \<Rightarrow> ls @ [new]) f d = v"
proof (cases "replace_first ls (field_tag f) new")
  case None
  then have "\<forall>l\<in>set ls. \<not> startswith l (field_tag f)"
    by (simp add: replace_first_None)
  then have "parse_int_lines (ls @ [new]) f d = parse_int_lines [new] f d"
    by (rule parse_int_lines_skip)
  with None assms show ?thesis by simp
next
  case (Some ls')
  then have "parse_int_lines ls' f d = v"
    using assms by (induction ls arbitrary: ls') (auto split: if_splits)
  with Some show ?thesis by simp
qed

text \<open>Two tags are apart when no line starts with both.\<close>

lemma parse_int_lines_other:
  assumes "\<not> startswith new (field_tag g)"
    and "\<And>l. startswith l (field_tag f) \<Longrightarrow> \<not> startswith l (field_tag g)"
  shows "parse_int_lines
           (case replace_first ls (field_tag f) new of Some ls' \<Rightarrow> ls' | None \<Rightarrow> ls @ [new]) g d
         = parse_int_lines ls g d"
proof (cases "replace_first ls (field_tag f) new")
  case None
  have "parse_int_lines (ls @ [new]) g d = parse_int_lines ls g d"
    using assms(1) by (induction ls) (auto split: option.splits)
  with None show ?thesis by simp
next
  case (Some ls')
  then have "parse_int_lines ls' g d = parse_int_lines ls g d"
    using assms by (induction ls arbitrary: ls') (auto split: if_splits option.splits)
  with Some show ?thesis by simp
qed

lemma after_bracket_tag:
  "Ch (CHR '']'') \<notin> set f \<Longrightarrow> after_bracket (field_tag f @ rest) = rest"
proof -
  assume a: "Ch (CHR '']'') \<notin> set f"
  have "dropWhile (\<lambda>c. c \<noteq> Ch (CHR '']'')) ((Ch (CHR ''['') # f) @ Ch (CHR '']'') # rest) = Ch (CHR '']'') # rest"
    using a by (subst dropWhile_append2) auto
  then show ?thesis
    by (simp add: after_bracket_def field_tag_def lit_def)
qed

lemma strip_space_cons:
  "list_all (\<lambda>c. \<not> is_space c) s \<Longrightarrow> strip (Ch (CHR '' '') # s) = s"
proof -
  assume a: "list_all (\<lambda>c. \<not> is_space c) s"
  then have d: "dropWhile is_space (Ch (CHR '' '') # s) = s"
    by (simp add: is_space_def dropWhile_none)
  from a have "list_all (\<lambda>c. \<not> is_space c) (rev s)"
    by (simp add: list_all_iff)
  then have r: "dropWhile is_space (rev s) = rev s"
    by (rule dropWhile_none)
  show ?thesis
    by (simp only: strip_def d r rev_rev_ident)
qed

lemma parse_int_set_field_same:
  assumes "Ch (CHR 0x0A) \<notin> set f" "Ch (CHR '']'') \<notin> set f"
  shows "parse_int_field (set_field c f (py_str v)) f d = v"
proof -
  let ?new = "field_tag f @ (lit '' '') @ py_str v"
  have 1: "startswith ?new (field_tag f)"
    by (simp add: startswith_def lit_def)
  have "after_bracket ?new = Ch (CHR '' '') # py_str v"
    using assms(2) after_bracket_tag[of f "(lit '' '') @ py_str v"] by (simp add: lit_def)
  then have 2: "py_int (strip (after_bracket ?new)) = Some v"
    by (simp add: strip_space_cons py_str_no_space py_int_py_str)
  show ?thesis
    unfolding parse_int_field_def split_nl_set_field[OF assms(1) py_str_no_nl]
    using parse_int_lines_same[OF 1 2] .
qed

lemma parse_int_set_field_other:
  assumes "Ch (CHR 0x0A) \<notin> set f" "Ch (CHR 0x0A) \<notin> set v"
    and "\<And>l. startswith l (field_tag f) \<Longrightarrow> \<not> startswith l (field_tag g)"
  shows "parse_int_field (set_field c f v) g d = parse_int_field c g d"
proof -
  let ?new = "field_tag f @ (lit '' '') @ v"
  have "startswith ?new (field_tag f)"
    by (simp add: startswith_def lit_def)
  then have 1: "\<not> startswith ?new (field_tag g)"
    by (rule assms(3))
  show ?thesis
    unfolding parse_int_field_def split_nl_set_field[OF assms(1,2)]
    using parse_int_lines_other[OF 1 assms(3)] by blast
qed

lemma startswith_both:
  "startswith l a \<Longrightarrow> startswith l b \<Longrightarrow> length a \<le> length b \<Longrightarrow> take (length a) b = a"
  by (metis min.absorb1 startswith_def take_take)

lemma tags_apart:
  "startswith l (field_tag (lit ''Uses'')) \<Longrightarrow> \<not> startswith l (field_tag (lit ''Successes''))"
  "startswith l (field_tag (lit ''Uses'')) \<Longrightarrow> \<not> startswith l (field_tag (lit ''Quality''))"
  "startswith l (field_tag (lit ''Successes'')) \<Longrightarrow> \<not> startswith l (field_tag (lit ''Uses''))"
  "startswith l (field_tag (lit ''Successes'')) \<Longrightarrow> \<not> startswith l (field_tag (lit ''Quality''))"
  "startswith l (field_tag (lit ''Quality'')) \<Longrightarrow> \<not> startswith l (field_tag (lit ''Uses''))"
  "startswith l (field_tag (lit ''Quality'')) \<Longrightarrow> \<not> startswith l (field_tag (lit ''Successes''))"
  using startswith_both[of l "field_tag (lit ''Uses'')" "field_tag (lit ''Successes'')"]
        startswith_both[of l "field_tag (lit ''Uses'')" "field_tag (lit ''Quality'')"]
        startswith_both[of l "field_tag (lit ''Quality'')" "field_tag (lit ''Successes'')"]
  by (auto simp: field_tag_def lit_def)

section \<open>Properties of the agent control loop\<close>

lemma consecutive_errors_exec_tool:
  "consecutive_errors (exec_tool E s tc) =
     (if has_error (lower E) (execute E (tc_name tc) (tc_arguments tc)) then consecutive_errors s + 1 else 0)"
  by (simp add: exec_tool_def Let_def)

lemma total_errors_exec_tool:
  "total_errors (exec_tool E s tc) =
     (if has_error (lower E) (execute E (tc_name tc) (tc_arguments tc)) then total_errors s + 1 else total_errors s)"
  by (simp add: exec_tool_def Let_def)

lemma error_streak_snoc:
  "error_streak c (errs @ [e]) = (if e then error_streak c errs + 1 else 0)"
  by (auto simp: error_streak_def takeWhile_eq_all_conv[THEN iffD2] list_all_iff)

lemma consecutive_errors_exec_tools:
  "consecutive_errors (exec_tools E s tcs) = error_streak (consecutive_errors s) (tool_errors E tcs)"
proof (induction tcs rule: rev_induct)
  case Nil
  show ?case by (simp add: exec_tools_def error_streak_def tool_errors_def)
next
  case (snoc tc tcs)
  have "exec_tools E s (tcs @ [tc]) = exec_tool E (exec_tools E s tcs) tc"
    by (simp add: exec_tools_def)
  then show ?case
    using snoc by (simp add: consecutive_errors_exec_tool tool_errors_def error_streak_snoc)
qed

lemma run_loop_bound:
  "int (iteration s) \<le> max 0 m \<Longrightarrow> int (iteration (run_loop E m u s)) \<le> max 0 m"
proof (induction E m u s rule: run_loop.induct)
  case (1 E m u s)
  show ?case
  proof (cases "int (iteration s) < m")
    case False
    then show ?thesis using "1.prems" by (simp add: run_loop.simps)
  next
    case True
    let ?s1 = "sufficiency E u (checkpoint E (s\<lparr>iteration := iteration s + 1\<rparr>))"
    let ?r = "chat E (messages ?s1)"
    show ?thesis
    proof (cases "resp_tool_calls ?r = []")
      case True
      with \<open>int (iteration s) < m\<close> show ?thesis
        by (simp add: run_loop.simps[of E m u s] Let_def)
    next
      case False
      have "int (iteration (tool_round E ?s1 ?r)) \<le> max 0 m"
        using \<open>int (iteration s) < m\<close> by simp
      with "1.IH"[OF True refl refl False] have "int (iteration (run_loop E m u (tool_round E ?s1 ?r))) \<le> max 0 m"
        by simp
      with False True show ?thesis
        by (simp add: run_loop.simps[of E m u s] Let_def)
    qed
  qed
qed


lemma final_content_exec_tools [simp]: "final_content (exec_tools E s tcs) = final_content s"
  unfolding exec_tools_def
  by (induction tcs arbitrary: s) (simp_all add: exec_tool_def Let_def)

lemma final_content_tool_round [simp]: "final_content (tool_round E s r) = final_content s"
  by (simp add: tool_round_def report_progress_def Let_def split: option.splits)

lemma final_content_checkpoint [simp]: "final_content (checkpoint E s) = final_content s"
  by (simp add: checkpoint_def split: option.splits)

lemma final_content_sufficiency [simp]: "final_content (sufficiency E u s) = final_content s"
  by (simp add: sufficiency_def)

lemma run_loop_exhausted:
  "\<forall>ms. resp_tool_calls (chat E ms) \<noteq> [] \<Longrightarrow>
     final_content (run_loop E m u s) = final_content s \<and>
     int (iteration (run_loop E m u s)) = max (int (iteration s)) m"
proof (induction E m u s rule: run_loop.induct)
  case (1 E m u s)
  show ?case
  proof (cases "int (iteration s) < m")
    case False
    then show ?thesis by (simp add: run_loop.simps)
  next
    case True
    let ?s1 = "sufficiency E u (checkpoint E (s\<lparr>iteration := iteration s + 1\<rparr>))"
    let ?r = "chat E (messages ?s1)"
    have tc: "resp_tool_calls ?r \<noteq> []"
      using "1.prems" by blast
    have step: "run_loop E m u s = run_loop E m u (tool_round E ?s1 ?r)"
      using True tc by (simp add: run_loop.simps[of E m u s] Let_def)
    have "final_content (run_loop E m u (tool_round E ?s1 ?r)) = final_content (tool_round E ?s1 ?r) \<and>
          int (iteration (run_loop E m u (tool_round E ?s1 ?r))) = max (int (iteration (tool_round E ?s1 ?r))) m"
      using "1.IH"[OF True refl refl tc "1.prems"] .
    then show ?thesis
      using True by (simp add: step)
  qed
qed

lemma messages_exec_tools:
  "messages (exec_tools E s tcs) =
     messages s @ map (\<lambda>tc. ToolMsg (tc_id tc) (tc_name tc) (execute E (tc_name tc) (tc_arguments tc))) tcs"
  unfolding exec_tools_def
  by (induction tcs arbitrary: s) (simp_all add: exec_tool_def Let_def)

lemma consecutive_errors_report_progress [simp]:
  "consecutive_errors (report_progress E s r) = consecutive_errors s"
  by (simp add: report_progress_def Let_def split: option.splits)

lemma consecutive_errors_tool_round:
  "consecutive_errors (tool_round E s r) =
     error_streak (consecutive_errors s) (tool_errors E (resp_tool_calls r))"
  by (simp add: tool_round_def Let_def consecutive_errors_exec_tools split: option.splits)

lemma consecutive_errors_checkpoint [simp]:
  "consecutive_errors (checkpoint E s) = consecutive_errors s"
  by (simp add: checkpoint_def split: option.splits)

lemma consecutive_errors_sufficiency [simp]:
  "consecutive_errors (sufficiency E u s) = consecutive_errors s"
  by (simp add: sufficiency_def)

lemma failed_directions_tool_round_eq:
  "failed_directions (tool_round E s r) =
     failed_directions (exec_tools E (report_progress E s r\<lparr>messages := add_assistant_message (messages (report_progress E s r)) r E\<rparr>) (resp_tool_calls r))"
  by (simp add: tool_round_def Let_def split: option.splits)

lemma last_messages_tool_round:
  "last (messages (tool_round E s r)) =
     (if consecutive_errors (tool_round E s r) \<ge> 3
      then Plain (lit ''user'') (Some (escalated_feedback (failed_directions (tool_round E s r))))
      else if consecutive_errors (tool_round E s r) > 0
      then Plain (lit ''user'') (Some (mild_feedback (failed_directions (tool_round E s r))))
      else (case resp_tool_calls r of
              [] \<Rightarrow> last (add_assistant_message (messages (report_progress E s r)) r E)
            | _ \<Rightarrow> (let tc = last (resp_tool_calls r)
                    in ToolMsg (tc_id tc) (tc_name tc) (execute E (tc_name tc) (tc_arguments tc)))))"
  by (auto simp add: tool_round_def Let_def error_feedback_def messages_exec_tools last_map
        add_assistant_message_def
        split: option.splits list.splits)


lemma has_error_demo_error: "has_error ascii_lower (Some (lit ''Error: command not found''))"
  by code_simp

lemma has_error_demo_ok: "\<not> has_error ascii_lower (Some (lit ''file contents''))"
  by code_simp

lemmas has_error_demo = has_error_demo_error has_error_demo_ok

lemma demo1: "consecutive_errors (tool_round (demo_env demo_round) (init_state demo_messages) (chat (demo_env demo_round) demo_messages)) = 1"
  by (simp add: consecutive_errors_tool_round demo_env_def demo_round_def demo_call_def tool_errors_def has_error_demo error_streak_def init_state_def lit_eq_iff)

lemma demo2: "failed_directions (tool_round (demo_env demo_round) (init_state demo_messages) (chat (demo_env demo_round) demo_messages)) = [(lit ''exec(a)''), (lit ''exec(b)''), (lit ''exec(d)'')]"
  by (simp add: failed_directions_tool_round_eq exec_tools_def exec_tool_def Let_def demo_env_def demo_round_def demo_call_def has_error_demo first_arg_def
        report_progress_def init_state_def lit_eq_iff)
     (simp add: lit_def)


lemma error_streak_append:
  "error_streak (error_streak c xs) ys = error_streak c (xs @ ys)"
proof (induction ys rule: rev_induct)
  case Nil
  show ?case by (simp add: error_streak_def)
next
  case (snoc y ys)
  have "error_streak c (xs @ ys @ [y]) = (if y then error_streak c (xs @ ys) + 1 else 0)"
    using error_streak_snoc[of c "xs @ ys" y] by simp
  with snoc show ?case
    by (simp add: error_streak_snoc)
qed

lemma error_streak_ge3:
  "3 \<le> error_streak 0 errs \<longleftrightarrow> (\<exists>pre. errs = pre @ [True, True, True])"
proof
  assume a: "3 \<le> error_streak 0 errs"
  show "\<exists>pre. errs = pre @ [True, True, True]"
  proof (cases errs rule: rev_cases)
    case Nil
    with a show ?thesis by (simp add: error_streak_def)
  next
    case (snoc e1 x1)
    with a have x1: "x1" and a1: "2 \<le> error_streak 0 e1"
      by (auto simp: error_streak_snoc split: if_splits)
    show ?thesis
    proof (cases e1 rule: rev_cases)
      case Nil
      with a1 show ?thesis by (simp add: error_streak_def)
    next
      case (snoc e2 x2)
      with a1 have x2: "x2" and a2: "1 \<le> error_streak 0 e2"
        by (auto simp: error_streak_snoc split: if_splits)
      show ?thesis
      proof (cases e2 rule: rev_cases)
        case Nil
        with a2 show ?thesis by (simp add: error_streak_def)
      next
        case (snoc e3 x3)
        with a2 have x3: "x3"
          by (auto simp: error_streak_snoc split: if_splits)
        show ?thesis
          using \<open>errs = e1 @ [x1]\<close> \<open>e1 = e2 @ [x2]\<close> \<open>e2 = e3 @ [x3]\<close> x1 x2 x3 by simp
      qed
    qed
  qed
next
  assume "\<exists>pre. errs = pre @ [True, True, True]"
  then obtain pre where "errs = (((pre @ [True]) @ [True]) @ [True])" by auto
  then show "3 \<le> error_streak 0 errs"
    by (simp only: error_streak_snoc) simp
qed

lemma feedback_distinct:
  "escalated_feedback fd \<noteq> mild_feedback fd'"
  unfolding escalated_feedback_def mild_feedback_def
  by (simp add: lit_cons_neq lit_cons_neq[where y="[]", simplified])

text \<open>
  Claim C2. A tool result that is not classified as an error sets the consecutive-error
  counter to 0 and an error result increments it by 1; checkpointing and the sufficiency
  gate leave it alone; so after a round the counter is the error streak of the results
  processed, streaks compose across rounds, and a streak counted from 0 reaches 3 exactly
  when the last three results were errors. The escalated "STOP retrying" instruction is
  the last message of a round exactly when the counter is at least 3 at the end of the
  round.
\<close>

theorem consecutive_error_counter:
  "consecutive_errors (exec_tool E s tc) =
     (if has_error (lower E) (execute E (tc_name tc) (tc_arguments tc)) then consecutive_errors s + 1 else 0)
   \<and> consecutive_errors (sufficiency E u (checkpoint E (s\<lparr>iteration := iteration s + 1\<rparr>)))
       = consecutive_errors s
   \<and> consecutive_errors (tool_round E s r)
       = error_streak (consecutive_errors s) (tool_errors E (resp_tool_calls r))
   \<and> error_streak (error_streak c xs) ys = error_streak c (xs @ ys)
   \<and> (3 \<le> error_streak 0 errs \<longleftrightarrow> (\<exists>pre. errs = pre @ [True, True, True]))
   \<and> (last (messages (tool_round E s r))
         = Plain (lit ''user'') (Some (escalated_feedback (failed_directions (tool_round E s r))))
       \<longleftrightarrow> 3 \<le> consecutive_errors (tool_round E s r))"
proof -
  have "last (messages (tool_round E s r))
         = Plain (lit ''user'') (Some (escalated_feedback (failed_directions (tool_round E s r))))
       \<longleftrightarrow> 3 \<le> consecutive_errors (tool_round E s r)"
    by (simp add: last_messages_tool_round feedback_distinct feedback_distinct[symmetric] add_assistant_message_def Let_def
          split: list.splits)
  then show ?thesis
    by (simp add: consecutive_errors_exec_tool consecutive_errors_tool_round
          error_streak_append error_streak_ge3)
qed

text \<open>
  Claim C6. \<^const>\<open>run_loop\<close> is a total function: the loop returns for every provider.
  With a non-negative \<^verbatim>\<open>max_iterations\<close> it performs at most that many iterations,
  and when the Chat Provider answers every call with tool calls it performs exactly that
  many and returns no final content.
\<close>

theorem agent_loop_within_budget:
  "0 \<le> max_iterations \<Longrightarrow>
     int (iteration (run_loop E max_iterations (user_request_of ms) (init_state ms)))
       \<le> max_iterations
     \<and> ((\<forall>m. resp_tool_calls (chat E m) \<noteq> []) \<longrightarrow>
          int (iteration (run_loop E max_iterations (user_request_of ms) (init_state ms)))
            = max_iterations
          \<and> fst (run_agent_loop E max_iterations ms) = None)"
proof -
  assume m: "0 \<le> max_iterations"
  have "int (iteration (init_state ms)) \<le> max 0 max_iterations"
    by (simp add: init_state_def)
  then have b: "int (iteration (run_loop E max_iterations (user_request_of ms) (init_state ms)))
       \<le> max 0 max_iterations"
    by (rule run_loop_bound)
  show ?thesis
  proof (intro conjI impI)
    show "int (iteration (run_loop E max_iterations (user_request_of ms) (init_state ms)))
       \<le> max_iterations"
      using b m by simp
  next
    assume t: "\<forall>m. resp_tool_calls (chat E m) \<noteq> []"
    from run_loop_exhausted[OF t, of max_iterations "user_request_of ms" "init_state ms"]
    show "int (iteration (run_loop E max_iterations (user_request_of ms) (init_state ms)))
            = max_iterations"
      and "fst (run_agent_loop E max_iterations ms) = None"
      using m by (simp_all add: init_state_def run_agent_loop_def Let_def)
  qed
qed

text \<open>
  Claim C6, witness: a provider that always asks for the same four tool calls, with a
  budget of two iterations.
\<close>

theorem agent_loop_within_budget_witness:
  "(0::int) \<le> 2
   \<and> (\<forall>m. resp_tool_calls (chat (demo_env demo_round) m) \<noteq> [])
   \<and> int (iteration (run_loop (demo_env demo_round) 2 (user_request_of demo_messages)
                       (init_state demo_messages))) = 2
   \<and> fst (run_agent_loop (demo_env demo_round) 2 demo_messages) = None"
proof -
  have t: "\<forall>m. resp_tool_calls (chat (demo_env demo_round) m) \<noteq> []"
    by (simp add: demo_env_def demo_round_def)
  show ?thesis
    using agent_loop_within_budget[of 2 "demo_env demo_round" demo_messages] t by simp
qed


lemma startswith_iff: "startswith s p \<longleftrightarrow> (\<exists>post. s = p @ post)"
proof
  assume "startswith s p"
  then have "s = p @ drop (length p) s"
    by (metis append_take_drop_id startswith_def lit_def)
  then show "\<exists>post. s = p @ post" ..
next
  assume "\<exists>post. s = p @ post"
  then show "startswith s p" by (auto simp: startswith_def lit_def)
qed

lemma contains_iff: "contains s sub \<longleftrightarrow> (\<exists>pre post. s = pre @ sub @ post)"
proof (induction s)
  case Nil
  show ?case by auto
next
  case (Cons c cs)
  show ?case
  proof
    assume "contains (c # cs) sub"
    then consider "startswith (c # cs) sub" | "contains cs sub" by auto
    then show "\<exists>pre post. c # cs = pre @ sub @ post"
    proof cases
      case 1
      then obtain post where "c # cs = sub @ post" by (auto simp: startswith_iff)
      then have "c # cs = [] @ sub @ post" by simp
      then show ?thesis by blast
    next
      case 2
      with Cons obtain pre post where "cs = pre @ sub @ post" by blast
      then have "c # cs = (c # pre) @ sub @ post" by simp
      then show ?thesis by blast
    qed
  next
    assume "\<exists>pre post. c # cs = pre @ sub @ post"
    then obtain pre post where e: "c # cs = pre @ sub @ post" by blast
    show "contains (c # cs) sub"
    proof (cases pre)
      case Nil
      with e have "startswith (c # cs) sub" by (auto simp: startswith_iff)
      then show ?thesis by simp
    next
      case (Cons p ps)
      with e have "cs = ps @ sub @ post" by simp
      with Cons.IH have "contains cs sub" by blast
      then show ?thesis by simp
    qed
  qed
qed

lemma join_member: "x \<in> set xs \<Longrightarrow> \<exists>pre post. join sep xs = pre @ x @ post"
proof (induction sep xs rule: join.induct)
  case (1 sep)
  then show ?case by simp
next
  case (2 sep y)
  then have "join sep [y] = [] @ x @ []" by simp
  then show ?case by blast
next
  case (3 sep y z zs)
  show ?case
  proof (cases "x = y")
    case True
    then have "join sep (y # z # zs) = [] @ x @ (sep @ join sep (z # zs))" by simp
    then show ?thesis by blast
  next
    case False
    with "3.prems" have "x \<in> set (z # zs)" by simp
    with "3.IH" obtain pre post where "join sep (z # zs) = pre @ x @ post" by blast
    then have "join sep (y # z # zs) = (y @ sep @ pre) @ x @ post" by simp
    then show ?thesis by blast
  qed
qed

lemma last_n_mono: "m \<le> n \<Longrightarrow> set (last_n m xs) \<subseteq> set (last_n n xs)"
  unfolding last_n_def by (rule set_drop_subset_set_drop) simp

text \<open>
  Claim C8. When a round of tool executions ends with one or two consecutive errors, the
  last message of the round is the milder "analyze and try differently" instruction.
  When more than one failed direction exists, the instruction includes the most recent
  failed directions: each of the last two, so each of the one or two of the streak, and
  with them the third last, since it lists \<^verbatim>\<open>failed_directions[-3:]\<close>. With a single
  failed direction it is the bare instruction.
\<close>

theorem mild_feedback_includes_recent_failed:
  "0 < consecutive_errors (tool_round E s r) \<Longrightarrow> consecutive_errors (tool_round E s r) < 3 \<Longrightarrow>
     last (messages (tool_round E s r))
       = Plain (lit ''user'') (Some (mild_feedback (failed_directions (tool_round E s r))))
     \<and> startswith (mild_feedback (failed_directions (tool_round E s r)))
         (lit ''The tool returned an error. Analyze what went wrong and try a different approach.'')
     \<and> (1 < length (failed_directions (tool_round E s r)) \<longrightarrow>
          (\<forall>d \<in> set (last_n 2 (failed_directions (tool_round E s r))).
             contains (mild_feedback (failed_directions (tool_round E s r))) d)
          \<and> (\<forall>d \<in> set (last_n (consecutive_errors (tool_round E s r))
                         (failed_directions (tool_round E s r))).
             contains (mild_feedback (failed_directions (tool_round E s r))) d)
          \<and> (\<forall>d \<in> set (last_n 3 (failed_directions (tool_round E s r))).
             contains (mild_feedback (failed_directions (tool_round E s r))) d))
     \<and> (length (failed_directions (tool_round E s r)) \<le> 1 \<longrightarrow>
          mild_feedback (failed_directions (tool_round E s r))
            = (lit ''The tool returned an error. Analyze what went wrong and try a different approach.''))"
proof -
  assume c: "0 < consecutive_errors (tool_round E s r)" "consecutive_errors (tool_round E s r) < 3"
  let ?fd = "failed_directions (tool_round E s r)"
  have l: "last (messages (tool_round E s r)) = Plain (lit ''user'') (Some (mild_feedback ?fd))"
    using c by (simp add: last_messages_tool_round)
  have p: "startswith (mild_feedback ?fd)
         (lit ''The tool returned an error. Analyze what went wrong and try a different approach.'')"
    unfolding startswith_iff mild_feedback_def by blast
  have m: "contains (mild_feedback ?fd) d" if "1 < length ?fd" "d \<in> set (last_n 3 ?fd)" for d
  proof -
    from join_member[OF that(2)] obtain pre post
      where "join (lit ''; '') (last_n 3 ?fd) = pre @ d @ post" by blast
    then have "mild_feedback ?fd =
       ((lit ''The tool returned an error. Analyze what went wrong and try a different approach.'')
        @ [Ch (CHR 0x0A)] @ (lit ''Already tried and failed: '') @ pre) @ d @ post"
      using that(1) by (simp add: mild_feedback_def)
    then show ?thesis
      unfolding contains_iff by blast
  qed
  have m2: "contains (mild_feedback ?fd) d" if "1 < length ?fd" "d \<in> set (last_n 2 ?fd)" for d
    using m[OF that(1)] that(2) last_n_mono[of 2 3 ?fd] by auto
  have mc: "contains (mild_feedback ?fd) d"
    if "1 < length ?fd" "d \<in> set (last_n (consecutive_errors (tool_round E s r)) ?fd)" for d
    using m[OF that(1)] that(2) c(2)
      last_n_mono[of "consecutive_errors (tool_round E s r)" 3 ?fd] by auto
  have e: "mild_feedback ?fd
            = (lit ''The tool returned an error. Analyze what went wrong and try a different approach.'')"
    if "length ?fd \<le> 1"
    using that by (simp add: mild_feedback_def)
  show ?thesis
    using l p m m2 mc e by blast
qed

text \<open>
  Claim C8, witness: a first round whose four tool calls fail, fail, succeed and fail. The
  streak is 1, three failed directions exist, and the instruction names the most recent
  one, \<open>exec(d)\<close>, and the one before it.
\<close>

theorem mild_feedback_includes_recent_failed_witness:
  "0 < consecutive_errors (tool_round (demo_env demo_round) (init_state demo_messages)
                             (chat (demo_env demo_round) demo_messages))
   \<and> consecutive_errors (tool_round (demo_env demo_round) (init_state demo_messages)
                             (chat (demo_env demo_round) demo_messages)) < 3
   \<and> 1 < length (failed_directions (tool_round (demo_env demo_round) (init_state demo_messages)
                             (chat (demo_env demo_round) demo_messages)))
   \<and> last_n 2 (failed_directions (tool_round (demo_env demo_round)
                             (init_state demo_messages) (chat (demo_env demo_round) demo_messages)))
       = [lit ''exec(b)'', lit ''exec(d)'']
   \<and> contains (mild_feedback (failed_directions (tool_round (demo_env demo_round)
                             (init_state demo_messages) (chat (demo_env demo_round) demo_messages))))
        (lit ''exec(d)'')
   \<and> contains (mild_feedback (failed_directions (tool_round (demo_env demo_round)
                             (init_state demo_messages) (chat (demo_env demo_round) demo_messages))))
        (lit ''exec(b)'')
   \<and> last (messages (tool_round (demo_env demo_round) (init_state demo_messages)
                             (chat (demo_env demo_round) demo_messages)))
       = Plain (lit ''user'')
           (Some ((lit ''The tool returned an error. Analyze what went wrong and try a different approach.'')
             @ [Ch (CHR 0x0A)] @ (lit ''Already tried and failed: exec(a); exec(b); exec(d)'')))"
proof -
  let ?t = "tool_round (demo_env demo_round) (init_state demo_messages)
              (chat (demo_env demo_round) demo_messages)"
  have f: "failed_directions ?t = [lit ''exec(a)'', lit ''exec(b)'', lit ''exec(d)'']"
    by (rule demo2)
  have h: "0 < consecutive_errors ?t" "consecutive_errors ?t < 3"
    by (simp_all add: demo1)
  have len: "1 < length (failed_directions ?t)"
    unfolding f by simp
  have n2: "last_n 2 (failed_directions ?t) = [lit ''exec(b)'', lit ''exec(d)'']"
    unfolding f by (simp add: last_n_def)
  from mild_feedback_includes_recent_failed[OF h]
  have l: "last (messages ?t) = Plain (lit ''user'') (Some (mild_feedback (failed_directions ?t)))"
    and inc: "1 < length (failed_directions ?t) \<longrightarrow>
          (\<forall>d \<in> set (last_n 2 (failed_directions ?t)).
             contains (mild_feedback (failed_directions ?t)) d)"
    by blast+
  from inc len have k: "\<forall>d \<in> set (last_n 2 (failed_directions ?t)).
             contains (mild_feedback (failed_directions ?t)) d"
    by blast
  have k1: "contains (mild_feedback (failed_directions ?t)) (lit ''exec(d)'')"
    and k2: "contains (mild_feedback (failed_directions ?t)) (lit ''exec(b)'')"
    using k unfolding n2 by simp_all
  have "mild_feedback [lit ''exec(a)'', lit ''exec(b)'', lit ''exec(d)'']
      = (lit ''The tool returned an error. Analyze what went wrong and try a different approach.'')
             @ [Ch (CHR 0x0A)] @ (lit ''Already tried and failed: exec(a); exec(b); exec(d)'')"
    by (simp add: mild_feedback_def last_n_def) (simp add: lit_def)
  then have l2: "last (messages ?t) = Plain (lit ''user'')
           (Some ((lit ''The tool returned an error. Analyze what went wrong and try a different approach.'')
             @ [Ch (CHR 0x0A)] @ (lit ''Already tried and failed: exec(a); exec(b); exec(d)'')))"
    using l unfolding f by (simp only:)
  from h len n2 k1 k2 l2 show ?thesis
    by (intro conjI)
qed

section \<open>Properties of the experience store\<close>

lemma quality_uses_successes_no_nl:
  "Ch (CHR 0x0A) \<notin> set (lit ''Uses'')" "Ch (CHR 0x0A) \<notin> set (lit ''Successes'')" "Ch (CHR 0x0A) \<notin> set (lit ''Quality'')"
  "Ch (CHR '']'') \<notin> set (lit ''Uses'')" "Ch (CHR '']'') \<notin> set (lit ''Successes'')" "Ch (CHR '']'') \<notin> set (lit ''Quality'')"
  by simp_all

lemma reuse_content_fields:
  fixes c :: ustring and success :: bool
  defines "u \<equiv> parse_int_field c (lit ''Uses'') 0 + 1"
    and "s \<equiv> parse_int_field c (lit ''Successes'') 0 + (if success then 1 else 0)"
    and "q \<equiv> parse_quality c"
  shows "parse_int_field (reuse_content c success) (lit ''Uses'') 0 = u"
    and "parse_int_field (reuse_content c success) (lit ''Successes'') 0 = s"
    and "parse_quality (reuse_content c success) =
           (if u \<ge> 3
            then (if (of_int s / of_int u :: real) \<ge> 0.8 then min 5 (q + 1)
                  else if (of_int s / of_int u :: real) < 0.4 then max 1 (q - 1)
                  else q)
            else q)"
proof -
  let ?c1 = "set_field c (lit ''Uses'') (py_str u)"
  let ?c2 = "set_field ?c1 (lit ''Successes'') (py_str s)"
  have u2: "parse_int_field ?c2 (lit ''Uses'') 0 = u"
    by (simp add: parse_int_set_field_other py_str_no_nl tags_apart parse_int_set_field_same)
  have s2: "parse_int_field ?c2 (lit ''Successes'') 0 = s"
    by (simp add: parse_int_set_field_same)
  have q2: "parse_quality ?c2 = q"
    by (simp add: parse_quality_def q_def parse_int_set_field_other py_str_no_nl tags_apart)
  have u3: "parse_int_field (set_field ?c2 (lit ''Quality'') (py_str n)) (lit ''Uses'') 0 = u" for n
    by (simp add: parse_int_set_field_other py_str_no_nl tags_apart u2)
  have s3: "parse_int_field (set_field ?c2 (lit ''Quality'') (py_str n)) (lit ''Successes'') 0 = s" for n
    by (simp add: parse_int_set_field_other py_str_no_nl tags_apart s2)
  have q3: "parse_quality (set_field ?c2 (lit ''Quality'') (py_str n)) = n" for n
    by (simp add: parse_quality_def parse_int_set_field_same)
  have rc: "reuse_content c success =
      (if u \<ge> 3
       then set_field ?c2 (lit ''Quality'') (py_str
              (if (of_int s / of_int u :: real) \<ge> 0.8 then min 5 (parse_quality ?c2 + 1)
               else if (of_int s / of_int u :: real) < 0.4 then max 1 (parse_quality ?c2 - 1)
               else parse_quality ?c2))
       else ?c2)"
    by (simp add: reuse_content_def Let_def u_def s_def)
  show "parse_int_field (reuse_content c success) (lit ''Uses'') 0 = u"
    unfolding rc using u2 u3 by simp
  show "parse_int_field (reuse_content c success) (lit ''Successes'') 0 = s"
    unfolding rc using s2 s3 by simp
  show "parse_quality (reuse_content c success) =
           (if u \<ge> 3
            then (if (of_int s / of_int u :: real) \<ge> 0.8 then min 5 (q + 1)
                  else if (of_int s / of_int u :: real) < 0.4 then max 1 (q - 1)
                  else q)
            else q)"
    unfolding rc using q2 q3 by simp
qed


lemma written_row_eq:
  "rtype r = (lit ''experience'') \<Longrightarrow>
     \<lparr>key = key r, content = c, rtype = (lit ''experience''), updated_at = updated_at r\<rparr>
       = r\<lparr>content := c\<rparr>"
  by (cases r) simp

lemma match_rows_subset:
  "r \<in> set (match_experience_rows low tbl task th) \<Longrightarrow>
     r \<in> set (experience_rows 100 tbl) \<and> \<not> deprecated (content r)
     \<and> keywords_of low task \<noteq> []
     \<and> real (length (keywords_of low task)) * th \<le> real (hits low (keywords_of low task) (content r))"
  by (auto simp: match_experience_rows_def Let_def split: if_splits)

lemma match_rows_member:
  "r \<in> set (experience_rows 100 tbl) \<Longrightarrow> \<not> deprecated (content r) \<Longrightarrow>
     keywords_of low task \<noteq> [] \<Longrightarrow>
     real (length (keywords_of low task)) * th \<le> real (hits low (keywords_of low task) (content r)) \<Longrightarrow>
     r \<in> set (match_experience_rows low tbl task th)"
  by (simp add: match_experience_rows_def Let_def)

lemma experience_rows_subset:
  "r \<in> set (experience_rows n tbl) \<Longrightarrow> r \<in> set tbl \<and> rtype r = (lit ''experience'')"
  unfolding experience_rows_def by (auto dest: in_set_takeD)

lemma update_row_frame:
  "x \<in> set (update_experience_row t r c) \<Longrightarrow>
     x \<in> set t \<or> (key r \<noteq> [] \<and>
        x = \<lparr>key = key r, content = c, rtype = (lit ''experience''), updated_at = updated_at r\<rparr>)"
  by (auto simp: update_experience_row_def delete_key_def split: if_splits)

lemma fold_update_frame:
  "x \<in> set (foldl (\<lambda>t r. update_experience_row t r (g r)) tbl ms) \<Longrightarrow>
     x \<in> set tbl \<or> (\<exists>r\<in>set ms. key r \<noteq> [] \<and>
        x = \<lparr>key = key r, content = g r, rtype = (lit ''experience''), updated_at = updated_at r\<rparr>)"
proof (induction ms arbitrary: x rule: rev_induct)
  case Nil
  then show ?case by simp
next
  case (snoc m ms)
  from snoc.prems have
    "x \<in> set (update_experience_row (foldl (\<lambda>t r. update_experience_row t r (g r)) tbl ms) m (g m))"
    by simp
  from update_row_frame[OF this] snoc.IH show ?case by auto
qed

lemma fold_update_present:
  assumes "r \<in> set ms" "key r \<noteq> []" "\<forall>x\<in>set ms. key x = key r \<longrightarrow> x = r"
  shows "\<lparr>key = key r, content = g r, rtype = (lit ''experience''), updated_at = updated_at r\<rparr>
           \<in> set (foldl (\<lambda>t r. update_experience_row t r (g r)) tbl ms)"
  using assms
proof (induction ms rule: rev_induct)
  case Nil
  then show ?case by simp
next
  case (snoc m ms)
  show ?case
  proof (cases "m = r")
    case True
    with snoc.prems show ?thesis by (simp add: update_experience_row_def)
  next
    case False
    with snoc.prems have "r \<in> set ms" and k: "key m \<noteq> key r" by auto
    with snoc have "\<lparr>key = key r, content = g r, rtype = (lit ''experience''), updated_at = updated_at r\<rparr>
           \<in> set (foldl (\<lambda>t r. update_experience_row t r (g r)) tbl ms)"
      by simp
    with k show ?thesis
      by (simp add: update_experience_row_def delete_key_def)
  qed
qed

lemma update_row_distinct:
  "distinct (map key t) \<Longrightarrow> distinct (map key (update_experience_row t r c))"
  by (auto simp: update_experience_row_def delete_key_def distinct_map_filter)

lemma fold_update_distinct:
  "distinct (map key tbl) \<Longrightarrow>
     distinct (map key (foldl (\<lambda>t r. update_experience_row t r (g r)) tbl ms))"
  by (induction ms rule: rev_induct) (simp_all add: update_row_distinct)

lemma distinct_key_unique:
  "distinct (map key tbl) \<Longrightarrow> x \<in> set tbl \<Longrightarrow> y \<in> set tbl \<Longrightarrow> key x = key y \<Longrightarrow> x = y"
  by (meson distinct_map inj_onD)


lemma demo_row_facts:
  "keywords_of ascii_lower (lit ''git rebase'') = [(lit ''git''), (lit ''rebase'')]"
  "hits ascii_lower [(lit ''git''), (lit ''rebase'')] (content demo_row) = 2"
  "deprecated (content demo_row) = False"
  "parse_int_field (content demo_row) (lit ''Uses'') 0 = 2"
  "parse_int_field (content demo_row) (lit ''Successes'') 0 = 2"
  "parse_quality (content demo_row) = 3"
  "hits ascii_lower [(lit ''git''), (lit ''rebase'')] bulk_content = 0"
  "deprecated bulk_content = False"
  "parse_quality bulk_content = 3"
  by code_simp+

lemma experience_rows_all:
  "length (filter (\<lambda>r. rtype r = (lit ''experience'')) tbl) \<le> n \<Longrightarrow>
     experience_rows n tbl = filter (\<lambda>r. rtype r = (lit ''experience'')) tbl"
  by (simp add: experience_rows_def)

lemma bulk_rows_props:
  "length (bulk_rows n) = n"
  "filter (\<lambda>r. rtype r = (lit ''experience'')) (bulk_rows n) = bulk_rows n"
  "x \<in> set (bulk_rows n) \<Longrightarrow> content x = bulk_content \<and> rtype x = (lit ''experience'')
      \<and> updated_at x = (lit ''2026-01-01T09:00:00'') \<and> (\<exists>i. key x = (lit ''experience_bulk_'') @ py_str i)"
  by (auto simp: bulk_rows_def filter_map o_def)

lemma experience_rows_bulk:
  "experience_rows n (bulk_rows n @ rest) = bulk_rows n"
  by (simp add: experience_rows_def bulk_rows_props)

lemma py_str_inj: "py_str i = py_str j \<Longrightarrow> i = j"
  by (metis option.inject py_int_py_str)

lemma bulk_rows_distinct: "distinct (map key (bulk_rows n))"
  by (auto simp: bulk_rows_def distinct_map o_def inj_on_def dest: py_str_inj)

lemma bulk_key_ne_demo: "x \<in> set (bulk_rows n) \<Longrightarrow> key x \<noteq> key demo_row"
proof -
  assume "x \<in> set (bulk_rows n)"
  then obtain i where "key x = (lit ''experience_bulk_'') @ py_str i"
    using bulk_rows_props(3) by blast
  then show ?thesis by (simp add: demo_row_def lit_def)
qed

lemma bulk_demo_distinct: "distinct (map key (bulk_rows n @ [demo_row]))"
proof -
  have "key demo_row \<notin> key ` set (bulk_rows n)"
    using bulk_key_ne_demo by fastforce
  then show ?thesis
    by (simp add: bulk_rows_distinct)
qed

text \<open>
  Claim C4, as amended. In a store with pairwise distinct keys, for every record among
  the first 100 experience rows that is not deprecated, has a non-empty key and contains
  at least 40% of the task's keywords (lowercase tokens of length at least 2),
  \<^const>\<open>record_reuse\<close> leaves the record in the store with only its content rewritten:
  its uses counter is one higher, its successes counter is one higher exactly when
  \<open>success\<close> holds, and when the new uses counter is at least 3 its quality is raised
  by one (at most to 5) for a confidence of at least 0.8, lowered by one (at least to 1)
  for a confidence below 0.4, and otherwise, as for fewer uses, left as it was.
\<close>

theorem record_reuse_reinforces_matched:
  assumes "r \<in> set (experience_rows 100 tbl)"
    and "\<not> deprecated (content r)"
    and "keywords_of low task \<noteq> []"
    and "real (length (keywords_of low task)) * 0.4 \<le> real (hits low (keywords_of low task) (content r))"
    and "key r \<noteq> []"
    and "distinct (map key tbl)"
  shows "r\<lparr>content := reuse_content (content r) success\<rparr> \<in> set (fst (record_reuse low tbl task success))
    \<and> distinct (map key (fst (record_reuse low tbl task success)))
    \<and> parse_int_field (reuse_content (content r) success) (lit ''Uses'') 0
        = parse_int_field (content r) (lit ''Uses'') 0 + 1
    \<and> parse_int_field (reuse_content (content r) success) (lit ''Successes'') 0
        = parse_int_field (content r) (lit ''Successes'') 0 + (if success then 1 else 0)
    \<and> parse_quality (reuse_content (content r) success)
        = (if parse_int_field (content r) (lit ''Uses'') 0 + 1 \<ge> 3
           then (if (of_int (parse_int_field (content r) (lit ''Successes'') 0 + (if success then 1 else 0))
                      / of_int (parse_int_field (content r) (lit ''Uses'') 0 + 1) :: real) \<ge> 0.8
                 then min 5 (parse_quality (content r) + 1)
                 else if (of_int (parse_int_field (content r) (lit ''Successes'') 0 + (if success then 1 else 0))
                      / of_int (parse_int_field (content r) (lit ''Uses'') 0 + 1) :: real) < 0.4
                 then max 1 (parse_quality (content r) - 1)
                 else parse_quality (content r))
           else parse_quality (content r))"
proof -
  let ?ms = "match_experience_rows low tbl task 0.4"
  let ?g = "\<lambda>r. reuse_content (content r) success"
  have m: "r \<in> set ?ms"
    using assms(1-4) by (intro match_rows_member) simp_all
  have sub: "x \<in> set tbl" if "x \<in> set ?ms" for x
    using that match_rows_subset experience_rows_subset by blast
  have uniq: "\<forall>x\<in>set ?ms. key x = key r \<longrightarrow> x = r"
    using sub m distinct_key_unique[OF assms(6)] by blast
  have e: "rtype r = (lit ''experience'')"
    using assms(1) experience_rows_subset by blast
  have "\<lparr>key = key r, content = ?g r, rtype = (lit ''experience''), updated_at = updated_at r\<rparr>
          \<in> set (foldl (\<lambda>t r. update_experience_row t r (?g r)) tbl ?ms)"
    using m assms(5) uniq by (rule fold_update_present)
  then have 1: "r\<lparr>content := reuse_content (content r) success\<rparr>
                  \<in> set (fst (record_reuse low tbl task success))"
    by (simp add: record_reuse_def Let_def written_row_eq[OF e])
  have 2: "distinct (map key (fst (record_reuse low tbl task success)))"
    using fold_update_distinct[OF assms(6), of ?g ?ms]
    by (simp add: record_reuse_def Let_def)
  show ?thesis
    using 1 2 reuse_content_fields[of "content r" success] by simp
qed


text \<open>
  Claim C4, witness: a record with two uses and two successes reinforced to three of
  each, whose quality goes from 3 to 4.
\<close>

theorem record_reuse_reinforces_matched_witness:
  "demo_row \<in> set (experience_rows 100 [demo_row])
   \<and> \<not> deprecated (content demo_row)
   \<and> keywords_of ascii_lower (lit ''git rebase'') \<noteq> []
   \<and> real (length (keywords_of ascii_lower (lit ''git rebase''))) * 0.4
        \<le> real (hits ascii_lower (keywords_of ascii_lower (lit ''git rebase'')) (content demo_row))
   \<and> key demo_row \<noteq> []
   \<and> distinct (map key [demo_row])
   \<and> demo_row\<lparr>content := reuse_content (content demo_row) True\<rparr>
        \<in> set (fst (record_reuse ascii_lower [demo_row] (lit ''git rebase'') True))
   \<and> parse_int_field (reuse_content (content demo_row) True) (lit ''Uses'') 0 = 3
   \<and> parse_int_field (reuse_content (content demo_row) True) (lit ''Successes'') 0 = 3
   \<and> parse_quality (reuse_content (content demo_row) True) = 4"
proof -
  have h: "demo_row \<in> set (experience_rows 100 [demo_row])"
    "key demo_row \<noteq> []" "distinct (map key [demo_row])"
    by (simp_all add: experience_rows_def demo_row_def)
  have k: "\<not> deprecated (content demo_row)" "keywords_of ascii_lower (lit ''git rebase'') \<noteq> []"
    "real (length (keywords_of ascii_lower (lit ''git rebase''))) * 0.4
        \<le> real (hits ascii_lower (keywords_of ascii_lower (lit ''git rebase'')) (content demo_row))"
    by (simp_all add: demo_row_facts)
  show ?thesis
    using record_reuse_reinforces_matched[OF h(1) k h(2,3), of True] h k
    by (simp add: demo_row_facts)
qed

text \<open>
  Claim C4, counterexample. The matching record is the 101st experience row of a store
  with distinct keys; \<^const>\<open>record_reuse\<close> reads 100 rows and leaves the store as it
  was.
\<close>

theorem record_reuse_row_limit_counterexample:
  "demo_row \<in> set (bulk_rows 100 @ [demo_row])
   \<and> rtype demo_row = (lit ''experience'')
   \<and> distinct (map key (bulk_rows 100 @ [demo_row]))
   \<and> \<not> deprecated (content demo_row)
   \<and> real (length (keywords_of ascii_lower (lit ''git rebase''))) * 0.4
        \<le> real (hits ascii_lower (keywords_of ascii_lower (lit ''git rebase'')) (content demo_row))
   \<and> record_reuse ascii_lower (bulk_rows 100 @ [demo_row]) (lit ''git rebase'') True
        = (bulk_rows 100 @ [demo_row], 0)"
proof -
  have "filter (\<lambda>r. \<not> deprecated (content r)
          \<and> real (length [(lit ''git''), (lit ''rebase'')]) * 0.4 \<le> real (hits ascii_lower [(lit ''git''), (lit ''rebase'')] (content r)))
         (bulk_rows 100) = []"
    using bulk_rows_props(3)[of _ 100] by (auto simp: filter_empty_conv demo_row_facts)
  then have "match_experience_rows ascii_lower (bulk_rows 100 @ [demo_row]) (lit ''git rebase'') 0.4 = []"
    by (simp add: match_experience_rows_def experience_rows_bulk demo_row_facts Let_def)
  then have "record_reuse ascii_lower (bulk_rows 100 @ [demo_row]) (lit ''git rebase'') True
        = (bulk_rows 100 @ [demo_row], 0)"
    by (simp add: record_reuse_def)
  moreover have "rtype demo_row = (lit ''experience'')"
    by (simp add: demo_row_def)
  ultimately show ?thesis
    using bulk_demo_distinct[of 100] by (simp add: demo_row_facts)
qed

lemma fold_update_frame_matched:
  assumes "x \<in> set (foldl (\<lambda>t r. update_experience_row t r (g r)) tbl ms)"
    and "\<And>r. r \<in> set ms \<Longrightarrow> r \<in> set tbl \<and> rtype r = (lit ''experience'')"
  shows "\<exists>r\<in>set tbl. key x = key r \<and> updated_at x = updated_at r \<and> rtype x = rtype r
           \<and> (x = r \<or> (r \<in> set ms \<and> x = r\<lparr>content := g r\<rparr>))"
proof -
  from fold_update_frame[OF assms(1)] consider "x \<in> set tbl"
    | r where "r \<in> set ms" "key r \<noteq> []"
        "x = \<lparr>key = key r, content = g r, rtype = (lit ''experience''), updated_at = updated_at r\<rparr>"
    by blast
  then show ?thesis
  proof cases
    case 1
    then show ?thesis by blast
  next
    case 2
    from assms(2)[OF 2(1)] have r: "r \<in> set tbl" "rtype r = (lit ''experience'')" by simp_all
    from 2(3) have "x = r\<lparr>content := g r\<rparr>"
      by (simp add: written_row_eq[OF r(2)])
    with r 2(1) show ?thesis by auto
  qed
qed

lemma matched_in_table:
  "r \<in> set (match_experience_rows low tbl task th) \<Longrightarrow> r \<in> set tbl \<and> rtype r = (lit ''experience'')"
  using match_rows_subset experience_rows_subset by blast






lemma split_nl_line': "Ch (CHR 0x0A) \<notin> set p \<Longrightarrow> split_nl (p @ [Ch (CHR 0x0A)] @ c) = p # split_nl c"
  using split_nl_line by simp

lemma parse_quality_experience_content:
  assumes "Ch (CHR 0x0A) \<notin> set task" "Ch (CHR 0x0A) \<notin> set outcome" "Ch (CHR 0x0A) \<notin> set category"
  shows "parse_quality (experience_content task outcome lessons quality category keywords trace)
           = quality"
proof -
  let ?l1 = "(lit ''[Task] '') @ task" and ?l2 = "(lit ''[Outcome] '') @ outcome"
  let ?l3 = "(lit ''[Category] '') @ category" and ?l4 = "field_tag (lit ''Quality'') @ (lit '' '') @ py_str quality"
  obtain rest where e: "experience_content task outcome lessons quality category keywords trace
      = ?l1 @ [Ch (CHR 0x0A)] @ (?l2 @ [Ch (CHR 0x0A)] @ (?l3 @ [Ch (CHR 0x0A)] @ (?l4 @ [Ch (CHR 0x0A)] @ rest)))"
    by (simp add: experience_content_def field_tag_def lit_def)
  have n: "Ch (CHR 0x0A) \<notin> set ?l1" "Ch (CHR 0x0A) \<notin> set ?l2" "Ch (CHR 0x0A) \<notin> set ?l3" "Ch (CHR 0x0A) \<notin> set ?l4"
    using assms py_str_no_nl by (simp_all add: field_tag_def lit_def)
  have s: "split_nl (experience_content task outcome lessons quality category keywords trace)
      = ?l1 # ?l2 # ?l3 # ?l4 # split_nl rest"
    unfolding e by (simp only: split_nl_line'[OF n(1)] split_nl_line'[OF n(2)]
        split_nl_line'[OF n(3)] split_nl_line'[OF n(4)])
  have a: "\<not> startswith ?l1 (field_tag (lit ''Quality''))" "\<not> startswith ?l2 (field_tag (lit ''Quality''))"
    "\<not> startswith ?l3 (field_tag (lit ''Quality''))"
    by (simp_all add: startswith_def lit_def field_tag_def)
  have b: "startswith ?l4 (field_tag (lit ''Quality''))"
    by (simp add: startswith_def lit_def)
  have "after_bracket ?l4 = Ch (CHR '' '') # py_str quality"
    using after_bracket_tag[of "(lit ''Quality'')" "(lit '' '') @ py_str quality"] by (simp add: lit_def)
  then have c: "py_int (strip (after_bracket ?l4)) = Some quality"
    by (simp add: strip_space_cons py_str_no_space py_int_py_str)
  show ?thesis
    unfolding parse_quality_def parse_int_field_def s
    using a b c by simp
qed

lemma quality_in_range_iff:
  "quality_in_range tbl \<longleftrightarrow>
     (\<forall>r\<in>set tbl. rtype r = (lit ''experience'') \<longrightarrow>
        1 \<le> parse_quality (content r) \<and> parse_quality (content r) \<le> 5)"
  by (auto simp: quality_in_range_def list_all_iff)

lemma reuse_content_quality_range:
  assumes "1 \<le> parse_quality c" "parse_quality c \<le> 5"
  shows "1 \<le> parse_quality (reuse_content c success) \<and> parse_quality (reuse_content c success) \<le> 5"
  using assms unfolding reuse_content_fields(3) by auto

lemma quality_in_range_apply_op:
  assumes "quality_in_range tbl" "clamped_op op"
  shows "quality_in_range (apply_op low tbl op)"
proof (cases op)
  case (Append ts task outcome lessons quality category kws trace)
  with assms(2) have "parse_quality (experience_content task outcome lessons quality category kws trace) = quality"
    and "1 \<le> quality" "quality \<le> 5"
    by (simp_all add: parse_quality_experience_content)
  with assms(1) Append show ?thesis
    by (simp add: quality_in_range_def append_experience_def)
next
  case (Reuse task_desc success)
  show ?thesis
    unfolding quality_in_range_iff
  proof (intro ballI impI)
    fix x assume x: "x \<in> set (apply_op low tbl op)" and t: "rtype x = (lit ''experience'')"
    from x Reuse have "x \<in> set (foldl (\<lambda>t r. update_experience_row t r (reuse_content (content r) success))
                        tbl (match_experience_rows low tbl task_desc 0.4))"
      by (simp add: record_reuse_def Let_def)
    moreover have "\<And>r. r \<in> set (match_experience_rows low tbl task_desc 0.4) \<Longrightarrow>
                 r \<in> set tbl \<and> rtype r = (lit ''experience'')"
      by (rule matched_in_table)
    ultimately have "\<exists>r\<in>set tbl. key x = key r \<and> updated_at x = updated_at r \<and> rtype x = rtype r
           \<and> (x = r \<or> (r \<in> set (match_experience_rows low tbl task_desc 0.4)
                 \<and> x = r\<lparr>content := reuse_content (content r) success\<rparr>))"
      by (rule fold_update_frame_matched)
    then obtain r where r: "r \<in> set tbl" "rtype x = rtype r"
      "x = r \<or> x = r\<lparr>content := reuse_content (content r) success\<rparr>"
      by blast
    with t assms(1) have q: "1 \<le> parse_quality (content r)" "parse_quality (content r) \<le> 5"
      by (simp_all add: quality_in_range_iff)
    from r(3) show "1 \<le> parse_quality (content x) \<and> parse_quality (content x) \<le> 5"
      using q reuse_content_quality_range[OF q] by auto
  qed
qed


text \<open>
  The part of the quality invariant that the store keeps. From a store whose experience
  records have a quality between 1 and 5, \<^const>\<open>record_reuse\<close> calls and those
  \<^const>\<open>append_experience\<close> calls whose quality argument is between 1 and 5 and whose
  task, outcome and category have no line break lead to such a store again.
\<close>

lemma quality_stays_in_range:
  "quality_in_range tbl \<Longrightarrow> list_all clamped_op ops \<Longrightarrow>
     quality_in_range (foldl (apply_op low) tbl ops)
     \<and> (\<forall>r\<in>set (foldl (apply_op low) tbl ops). rtype r = (lit ''experience'') \<longrightarrow>
          1 \<le> parse_quality (content r) \<and> parse_quality (content r) \<le> 5)"
proof -
  assume "quality_in_range tbl" "list_all clamped_op ops"
  then have "quality_in_range (foldl (apply_op low) tbl ops)"
  proof (induction ops arbitrary: tbl)
    case Nil
    then show ?case by simp
  next
    case (Cons op ops)
    then show ?case by (simp add: quality_in_range_apply_op)
  qed
  then show ?thesis
    by (simp add: quality_in_range_iff)
qed

lemma injected_quality_content:
  "parse_quality (experience_content (lit ''fix bug'' @ [Ch (CHR 0x0A)] @ lit ''[Quality] 9'') (lit ''success'')
           (lit ''resolve conflicts file by file'') (summarized_quality 3) (lit ''coding'') [] []) = 9"
  by code_simp

lemma injected_quality_after_reuse:
  "map (\<lambda>r. parse_quality (content r))
     (foldl (apply_op ascii_lower) []
        [Append (lit ''2026-01-05T10:00:00'') (lit ''fix bug'' @ [Ch (CHR 0x0A)] @ lit ''[Quality] 9'') (lit ''success'')
           (lit ''resolve conflicts file by file'') (summarized_quality 3) (lit ''coding'') [] [],
         Reuse (lit ''fix bug'') True]) = [9]"
  by code_simp

text \<open>
  Claim C3. The stored quality of an experience record does not stay within 1 to 5 under
  every sequence of \<^const>\<open>append_experience\<close> and \<^const>\<open>record_reuse\<close> calls:
  \<^const>\<open>append_experience\<close> writes its quality argument as it is given, and the
  quality of a record is read from its first line that starts with \<^verbatim>\<open>[Quality]\<close>.
  A call with the quality 7 stores a record of quality 7. A call with the quality that
  \<^verbatim>\<open>_summarize_experience\<close> has clamped, here 3, and a task of two lines whose second
  line is \<^verbatim>\<open>[Quality] 9\<close>, stores a record whose quality is 9, and it is still 9 after
  a \<^const>\<open>record_reuse\<close> that matches the record.
\<close>

theorem append_experience_quality_out_of_range:
  "parse_quality (content (last (append_experience [] (lit ''2026-01-05T10:00:00'')
        (lit ''git rebase conflict'') (lit ''success'') (lit ''resolve conflicts file by file'') 7
        (lit ''coding'') [] []))) = 7
   \<and> \<not> quality_in_range (append_experience [] (lit ''2026-01-05T10:00:00'')
        (lit ''git rebase conflict'') (lit ''success'') (lit ''resolve conflicts file by file'') 7
        (lit ''coding'') [] [])
   \<and> summarized_quality 3 = 3
   \<and> parse_quality (content (last (append_experience [] (lit ''2026-01-05T10:00:00'')
        (lit ''fix bug'' @ [Ch (CHR 0x0A)] @ lit ''[Quality] 9'') (lit ''success'')
        (lit ''resolve conflicts file by file'') (summarized_quality 3) (lit ''coding'') [] []))) = 9
   \<and> \<not> quality_in_range (foldl (apply_op ascii_lower) []
        [Append (lit ''2026-01-05T10:00:00'') (lit ''fix bug'' @ [Ch (CHR 0x0A)] @ lit ''[Quality] 9'') (lit ''success'')
           (lit ''resolve conflicts file by file'') (summarized_quality 3) (lit ''coding'') [] [],
         Reuse (lit ''fix bug'') True])"
proof -
  have a: "parse_quality (experience_content (lit ''git rebase conflict'') (lit ''success'')
           (lit ''resolve conflicts file by file'') 7 (lit ''coding'') [] []) = 7"
    by (rule parse_quality_experience_content) simp_all
  have b: "quality_in_range tbl \<longleftrightarrow> list_all (\<lambda>q. 1 \<le> q \<and> q \<le> 5)
             (map (\<lambda>r. parse_quality (content r)) (filter (\<lambda>r. rtype r = (lit ''experience'')) tbl))" for tbl
    by (simp add: quality_in_range_def list_all_iff)
  have c: "list_all (\<lambda>r. rtype r = (lit ''experience''))
     (foldl (apply_op ascii_lower) []
        [Append (lit ''2026-01-05T10:00:00'') (lit ''fix bug'' @ [Ch (CHR 0x0A)] @ lit ''[Quality] 9'') (lit ''success'')
           (lit ''resolve conflicts file by file'') (summarized_quality 3) (lit ''coding'') [] [],
         Reuse (lit ''fix bug'') True])"
    by code_simp
  then have d: "filter (\<lambda>r. rtype r = (lit ''experience''))
     (foldl (apply_op ascii_lower) []
        [Append (lit ''2026-01-05T10:00:00'') (lit ''fix bug'' @ [Ch (CHR 0x0A)] @ lit ''[Quality] 9'') (lit ''success'')
           (lit ''resolve conflicts file by file'') (summarized_quality 3) (lit ''coding'') [] [],
         Reuse (lit ''fix bug'') True])
     = foldl (apply_op ascii_lower) []
        [Append (lit ''2026-01-05T10:00:00'') (lit ''fix bug'' @ [Ch (CHR 0x0A)] @ lit ''[Quality] 9'') (lit ''success'')
           (lit ''resolve conflicts file by file'') (summarized_quality 3) (lit ''coding'') [] [],
         Reuse (lit ''fix bug'') True]"
    by (simp only: filter_id_conv list_all_iff)
  have 1: "parse_quality (content (last (append_experience [] (lit ''2026-01-05T10:00:00'')
        (lit ''git rebase conflict'') (lit ''success'') (lit ''resolve conflicts file by file'') 7
        (lit ''coding'') [] []))) = 7"
    using a by (simp add: append_experience_def)
  have 2: "\<not> quality_in_range (append_experience [] (lit ''2026-01-05T10:00:00'')
        (lit ''git rebase conflict'') (lit ''success'') (lit ''resolve conflicts file by file'') 7
        (lit ''coding'') [] [])"
    using a by (simp add: append_experience_def quality_in_range_def)
  have 3: "summarized_quality 3 = 3"
    by (simp add: summarized_quality_def)
  have 4: "parse_quality (content (last (append_experience [] (lit ''2026-01-05T10:00:00'')
        (lit ''fix bug'' @ [Ch (CHR 0x0A)] @ lit ''[Quality] 9'') (lit ''success'')
        (lit ''resolve conflicts file by file'') (summarized_quality 3) (lit ''coding'') [] []))) = 9"
    using injected_quality_content by (simp add: append_experience_def)
  have 5: "\<not> quality_in_range (foldl (apply_op ascii_lower) []
        [Append (lit ''2026-01-05T10:00:00'') (lit ''fix bug'' @ [Ch (CHR 0x0A)] @ lit ''[Quality] 9'') (lit ''success'')
           (lit ''resolve conflicts file by file'') (summarized_quality 3) (lit ''coding'') [] [],
         Reuse (lit ''fix bug'') True])"
    unfolding b d injected_quality_after_reuse by simp
  from 1 2 3 4 5 show ?thesis
    by (intro conjI)
qed

lemma fold_delete_keys:
  "foldl (\<lambda>t r. delete_key (key r) t) tbl rs = filter (\<lambda>x. key x \<notin> key ` set rs) tbl"
proof (induction rs rule: rev_induct)
  case Nil
  show ?case by simp
next
  case (snoc r rs)
  then show ?case
    by (auto simp: delete_key_def intro: filter_cong)
qed

lemma days_since_cases:
  "updated_at r = [] \<or> fromisoformat clk (updated_at r) = None \<Longrightarrow>
     days_since clk (updated_at r) = 30"
  "updated_at r \<noteq> [] \<Longrightarrow> fromisoformat clk (updated_at r) = Some dt \<Longrightarrow>
     days_since clk (updated_at r) = max 0 ((now clk - dt) / 86400)"
  by (auto simp: days_since_def)

lemma cleanup_stale_member:
  assumes "r \<in> set tbl" "distinct (map key tbl)"
  shows "r \<notin> set (fst (cleanup_stale clk tbl m1 m2)) \<longleftrightarrow>
     (r \<in> set (experience_rows 500 tbl) \<and> should_remove clk m1 m2 r \<and> key r \<noteq> [])"
proof -
  let ?stale = "filter (\<lambda>r. should_remove clk m1 m2 r \<and> key r \<noteq> []) (experience_rows 500 tbl)"
  have sub: "x \<in> set tbl" if "x \<in> set ?stale" for x
    using that experience_rows_subset by auto
  have "key r \<in> key ` set ?stale \<longleftrightarrow> r \<in> set ?stale"
  proof
    assume "key r \<in> key ` set ?stale"
    then obtain x where x: "x \<in> set ?stale" "key x = key r" by auto
    with sub assms have "x = r" using distinct_key_unique by blast
    with x show "r \<in> set ?stale" by simp
  qed simp
  then show ?thesis
    using assms(1) by (auto simp: cleanup_stale_def Let_def fold_delete_keys)
qed

text \<open>
  Claim C5, as amended. In a store with pairwise distinct keys, a record among the first
  500 experience rows that has a non-empty key is removed by \<^const>\<open>cleanup_stale\<close>
  exactly when it is deprecated and older than \<^verbatim>\<open>max_deprecated_days\<close> (30 by default),
  or its quality is at most 1 and it is older than \<^verbatim>\<open>max_low_quality_days\<close> (90 by
  default). The age is computed from the record's timestamp: 30 days when the timestamp
  is missing or cannot be parsed, and otherwise the days since then, at least 0.
\<close>

theorem cleanup_stale_removes_exactly_stale:
  assumes "r \<in> set (experience_rows 500 tbl)" "key r \<noteq> []" "distinct (map key tbl)"
  shows "(r \<notin> set (fst (cleanup_stale clk tbl max_deprecated_days max_low_quality_days)) \<longleftrightarrow>
           (deprecated (content r) \<and> days_since clk (updated_at r) > of_int max_deprecated_days)
           \<or> (parse_quality (content r) \<le> 1
               \<and> days_since clk (updated_at r) > of_int max_low_quality_days))
    \<and> (updated_at r = [] \<or> fromisoformat clk (updated_at r) = None \<longrightarrow>
          days_since clk (updated_at r) = 30)
    \<and> (\<forall>dt. updated_at r \<noteq> [] \<and> fromisoformat clk (updated_at r) = Some dt \<longrightarrow>
          days_since clk (updated_at r) = max 0 ((now clk - dt) / 86400))"
proof -
  have "r \<in> set tbl"
    using assms(1) experience_rows_subset by blast
  from cleanup_stale_member[OF this assms(3)] assms(1,2)
  have "r \<notin> set (fst (cleanup_stale clk tbl max_deprecated_days max_low_quality_days)) \<longleftrightarrow>
          should_remove clk max_deprecated_days max_low_quality_days r"
    by simp
  then show ?thesis
    using days_since_cases[of r clk] by (simp add: should_remove_def Let_def)
qed

lemma low_quality_row_facts:
  "deprecated (content low_quality_row) = False"
  "parse_quality (content low_quality_row) = 1"
  "deprecated (content deprecated_row) = True"
  by code_simp+

lemma demo_clock_days:
  "days_since (demo_clock d) (lit ''2026-01-05T10:00:00'') = max 0 d"
  by (simp add: days_since_def demo_clock_def)

text \<open>
  Claim C5, witness: a record of quality 1 is retained at an age of 89 days and removed
  at 91 days.
\<close>

theorem cleanup_stale_removes_exactly_stale_witness:
  "low_quality_row \<in> set (experience_rows 500 [low_quality_row])
   \<and> key low_quality_row \<noteq> []
   \<and> distinct (map key [low_quality_row])
   \<and> parse_quality (content low_quality_row) = 1
   \<and> days_since (demo_clock 89) (updated_at low_quality_row) = 89
   \<and> low_quality_row \<in> set (fst (cleanup_stale (demo_clock 89) [low_quality_row] 30 90))
   \<and> days_since (demo_clock 91) (updated_at low_quality_row) = 91
   \<and> low_quality_row \<notin> set (fst (cleanup_stale (demo_clock 91) [low_quality_row] 30 90))"
proof -
  have h: "low_quality_row \<in> set (experience_rows 500 [low_quality_row])"
    "key low_quality_row \<noteq> []" "distinct (map key [low_quality_row])"
    by (simp_all add: experience_rows_def low_quality_row_def demo_row_def)
  have u: "updated_at low_quality_row = (lit ''2026-01-05T10:00:00'')"
    by (simp add: low_quality_row_def demo_row_def)
  from cleanup_stale_removes_exactly_stale[OF h, of "demo_clock 89" 30 90]
       cleanup_stale_removes_exactly_stale[OF h, of "demo_clock 91" 30 90]
  show ?thesis
    using h by (simp add: low_quality_row_facts u demo_clock_days)
qed

text \<open>
  Claim C5, counterexample. A deprecated record of 40 days that is the 501st experience
  row of a store with distinct keys is not removed: \<^const>\<open>cleanup_stale\<close> reads 500
  rows.
\<close>

theorem cleanup_stale_row_limit_counterexample:
  "deprecated_row \<in> set (bulk_rows 500 @ [deprecated_row])
   \<and> rtype deprecated_row = (lit ''experience'')
   \<and> distinct (map key (bulk_rows 500 @ [deprecated_row]))
   \<and> deprecated (content deprecated_row)
   \<and> days_since (demo_clock 40) (updated_at deprecated_row) > 30
   \<and> cleanup_stale (demo_clock 40) (bulk_rows 500 @ [deprecated_row]) 30 90
        = (bulk_rows 500 @ [deprecated_row], 0)"
proof -
  have "filter (\<lambda>r. should_remove (demo_clock 40) 30 90 r \<and> key r \<noteq> []) (bulk_rows 500) = []"
    using bulk_rows_props(3)[of _ 500]
    by (auto simp: filter_empty_conv should_remove_def Let_def demo_row_facts)
  then have "cleanup_stale (demo_clock 40) (bulk_rows 500 @ [deprecated_row]) 30 90
        = (bulk_rows 500 @ [deprecated_row], 0)"
    by (simp add: cleanup_stale_def experience_rows_bulk Let_def)
  moreover have "key deprecated_row = key demo_row" "rtype deprecated_row = (lit ''experience'')"
    "updated_at deprecated_row = (lit ''2026-01-05T10:00:00'')"
    by (simp_all add: deprecated_row_def demo_row_def)
  moreover have "key demo_row \<notin> key ` set (bulk_rows 500)"
    using bulk_key_ne_demo by fastforce
  ultimately show ?thesis
    by (simp add: low_quality_row_facts demo_clock_days bulk_rows_distinct)
qed

lemma fold_delete_entries:
  "foldl (\<lambda>t entry. case c2k entry of None \<Rightarrow> t
                      | Some k \<Rightarrow> if k \<noteq> [] then delete_key k t else t) tbl old
     = filter (\<lambda>x. \<not> (key x \<noteq> [] \<and> (\<exists>e\<in>set old. c2k e = Some (key x)))) tbl"
proof (induction old rule: rev_induct)
  case Nil
  show ?case by simp
next
  case (snoc e old)
  then show ?case
    by (auto simp: delete_key_def split: option.splits intro!: filter_cong)
qed

lemma content_to_key_distinct:
  assumes "distinct (map content rows)"
  shows "content_to_key rows e = Some k \<longleftrightarrow> (\<exists>r\<in>set rows. content r = e \<and> key r = k)"
proof -
  have d: "distinct (map fst (rev (map (\<lambda>r. (content r, key r)) rows)))"
    using assms by (simp add: rev_map[symmetric] o_def)
  have "content_to_key rows e = Some k \<longleftrightarrow> (e, k) \<in> set (rev (map (\<lambda>r. (content r, key r)) rows))"
    unfolding content_to_key_def using d by (rule map_of_eq_Some_iff)
  then show ?thesis by auto
qed

text \<open>
  The case in which \<^const>\<open>replace_merged\<close> replaces what it is given: in a store of at
  most 200 experience records, with pairwise distinct keys, non-empty keys on the
  experience records and pairwise distinct contents among them, it deletes exactly the
  experience records whose content is one of the entries passed, and appends one new
  record with the merged content.
\<close>

lemma replace_merged_replaces_originals:
  assumes "length (filter (\<lambda>r. rtype r = (lit ''experience'')) tbl) \<le> 200"
    and "distinct (map key tbl)"
    and "distinct (map content (filter (\<lambda>r. rtype r = (lit ''experience'')) tbl))"
    and "\<forall>r\<in>set tbl. rtype r = (lit ''experience'') \<longrightarrow> key r \<noteq> []"
  shows "replace_merged tbl ts old_entries merged_content
           = filter (\<lambda>r. \<not> (rtype r = (lit ''experience'') \<and> content r \<in> set old_entries)) tbl
             @ [\<lparr>key = (lit ''experience_merged_'') @ ts, content = merged_content,
                 rtype = (lit ''experience''), updated_at = ts\<rparr>]"
proof -
  let ?rows = "filter (\<lambda>r. rtype r = (lit ''experience'')) tbl"
  have rows: "experience_rows 200 tbl = ?rows"
    using assms(1) by (rule experience_rows_all)
  have c2k: "content_to_key ?rows e = Some k \<longleftrightarrow> (\<exists>r\<in>set ?rows. content r = e \<and> key r = k)" for e k
    using assms(3) by (rule content_to_key_distinct)
  have "(key x \<noteq> [] \<and> (\<exists>e\<in>set old_entries. content_to_key ?rows e = Some (key x)))
          \<longleftrightarrow> (rtype x = (lit ''experience'') \<and> content x \<in> set old_entries)"
    if x: "x \<in> set tbl" for x
  proof
    assume "key x \<noteq> [] \<and> (\<exists>e\<in>set old_entries. content_to_key ?rows e = Some (key x))"
    then obtain e r where e: "e \<in> set old_entries" and r: "r \<in> set ?rows" "content r = e" "key r = key x"
      unfolding c2k by blast
    from r(1,3) x have "r = x"
      using distinct_key_unique[OF assms(2)] by simp
    with r e show "rtype x = (lit ''experience'') \<and> content x \<in> set old_entries" by auto
  next
    assume a: "rtype x = (lit ''experience'') \<and> content x \<in> set old_entries"
    with x assms(4) have "key x \<noteq> []" by blast
    moreover from a x have "content_to_key ?rows (content x) = Some (key x)"
      unfolding c2k by auto
    ultimately show "key x \<noteq> [] \<and> (\<exists>e\<in>set old_entries. content_to_key ?rows e = Some (key x))"
      using a by blast
  qed
  then have "filter (\<lambda>x. \<not> (key x \<noteq> [] \<and> (\<exists>e\<in>set old_entries. content_to_key ?rows e = Some (key x)))) tbl
        = filter (\<lambda>r. \<not> (rtype r = (lit ''experience'') \<and> content r \<in> set old_entries)) tbl"
    by (intro filter_cong) auto
  then show ?thesis
    by (simp add: replace_merged_def Let_def rows fold_delete_entries)
qed


lemma bulk_content_ne_demo: "content demo_row \<noteq> bulk_content"
  by code_simp

lemma content_to_key_bulk: "content_to_key (bulk_rows n) (content demo_row) = None"
proof -
  have "content demo_row \<notin> content ` set (bulk_rows n)"
    using bulk_rows_props(3) bulk_content_ne_demo by fastforce
  then show ?thesis
    by (simp add: content_to_key_def map_of_eq_None_iff image_image)
qed

text \<open>
  A record beyond the 200 rows that \<^const>\<open>replace_merged\<close> reads: passed as the 201st
  experience row of a store with distinct keys, it has no key in the dictionary and is
  still in the store beside the merged record.
\<close>

lemma replace_merged_row_limit:
  "rtype demo_row = (lit ''experience'')
   \<and> distinct (map key (bulk_rows 200 @ [demo_row]))
   \<and> replace_merged (bulk_rows 200 @ [demo_row]) (lit ''2026-02-01T08:00:00'') [content demo_row]
        (demo_content (lit ''resolve git conflicts'') (lit ''success'') 5 0 0)
       = bulk_rows 200 @ [demo_row] @
         [\<lparr>key = (lit ''experience_merged_2026-02-01T08:00:00''),
           content = demo_content (lit ''resolve git conflicts'') (lit ''success'') 5 0 0,
           rtype = (lit ''experience''), updated_at = (lit ''2026-02-01T08:00:00'')\<rparr>]
   \<and> demo_row \<in> set (replace_merged (bulk_rows 200 @ [demo_row]) (lit ''2026-02-01T08:00:00'')
        [content demo_row] (demo_content (lit ''resolve git conflicts'') (lit ''success'') 5 0 0))"
proof -
  have "replace_merged (bulk_rows 200 @ [demo_row]) (lit ''2026-02-01T08:00:00'') [content demo_row]
        (demo_content (lit ''resolve git conflicts'') (lit ''success'') 5 0 0)
       = bulk_rows 200 @ [demo_row] @
         [\<lparr>key = (lit ''experience_merged_2026-02-01T08:00:00''),
           content = demo_content (lit ''resolve git conflicts'') (lit ''success'') 5 0 0,
           rtype = (lit ''experience''), updated_at = (lit ''2026-02-01T08:00:00'')\<rparr>]"
    by (simp add: replace_merged_def Let_def experience_rows_bulk content_to_key_bulk lit_append)
  moreover have "rtype demo_row = (lit ''experience'')"
    by (simp add: demo_row_def)
  ultimately show ?thesis
    using bulk_demo_distinct[of 200] by simp
qed

text \<open>
  Claim C7. \<^const>\<open>replace_merged\<close> does not delete every record it is passed. It finds
  the key to delete through a dictionary from content to key, which keeps one key for
  each content. In a store of five active records of one category, two of which have the
  same content, \<^const>\<open>get_merge_candidates\<close> returns the five contents as one group;
  \<^const>\<open>replace_merged\<close>, called as \<^verbatim>\<open>_merge_and_cleanup_experiences\<close> calls it with
  the first six entries of the group, deletes four records and leaves the first of the
  two equal records in the store beside the merged record.
\<close>

theorem replace_merged_leaves_duplicate_original:
  "get_merge_candidates duplicate_rows 5 = [map content duplicate_rows]
   \<and> replace_merged duplicate_rows (lit ''2026-02-01T08:00:00'')
        (take 6 (hd (get_merge_candidates duplicate_rows 5)))
        (demo_content (lit ''resolve git conflicts'') (lit ''success'') 5 0 0)
       = [coding_row (lit ''01'') (lit ''git rebase conflict''),
          \<lparr>key = (lit ''experience_merged_2026-02-01T08:00:00''),
           content = demo_content (lit ''resolve git conflicts'') (lit ''success'') 5 0 0,
           rtype = (lit ''experience''), updated_at = (lit ''2026-02-01T08:00:00'')\<rparr>]
   \<and> coding_row (lit ''01'') (lit ''git rebase conflict'') \<in> set duplicate_rows
   \<and> content (coding_row (lit ''01'') (lit ''git rebase conflict''))
        \<in> set (take 6 (hd (get_merge_candidates duplicate_rows 5)))"
proof -
  have 1: "get_merge_candidates duplicate_rows 5 = [map content duplicate_rows]"
    by code_simp
  have 2: "replace_merged duplicate_rows (lit ''2026-02-01T08:00:00'')
        (take 6 (map content duplicate_rows))
        (demo_content (lit ''resolve git conflicts'') (lit ''success'') 5 0 0)
       = [coding_row (lit ''01'') (lit ''git rebase conflict''),
          \<lparr>key = (lit ''experience_merged_2026-02-01T08:00:00''),
           content = demo_content (lit ''resolve git conflicts'') (lit ''success'') 5 0 0,
           rtype = (lit ''experience''), updated_at = (lit ''2026-02-01T08:00:00'')\<rparr>]"
    by code_simp
  have 3: "coding_row (lit ''01'') (lit ''git rebase conflict'') \<in> set duplicate_rows"
    by (simp add: duplicate_rows_def)
  have 4: "content (coding_row (lit ''01'') (lit ''git rebase conflict''))
        \<in> set (take 6 (map content duplicate_rows))"
    by (simp add: duplicate_rows_def)
  from 1 2 3 4 show ?thesis
    by simp
qed

lemma group_add_map_of:
  "map_of (group_add g cat c) k =
     (if k = cat then Some ((case map_of g cat of None \<Rightarrow> [] | Some v \<Rightarrow> v) @ [c])
      else map_of g k)"
  by (induction g cat c rule: group_add.induct) auto

lemma group_add_keys: "fst ` set (group_add g cat c) = insert cat (fst ` set g)"
  by (induction g cat c rule: group_add.induct) auto

lemma group_add_distinct:
  "distinct (map fst g) \<Longrightarrow> distinct (map fst (group_add g cat c))"
  by (induction g cat c rule: group_add.induct) (auto simp: group_add_keys)

lemma fold_group_distinct:
  "distinct (map fst g) \<Longrightarrow>
     distinct (map fst (foldl (\<lambda>g r. group_add g (f r) (content r)) g rs))"
  by (induction rs arbitrary: g) (simp_all add: group_add_distinct)

lemma fold_group_map_of:
  "map_of (foldl (\<lambda>g r. group_add g (f r) (content r)) g rs) k =
     (case map_of g k of
        None \<Rightarrow> (if filter (\<lambda>r. f r = k) rs = [] then None
                 else Some (map content (filter (\<lambda>r. f r = k) rs)))
      | Some v \<Rightarrow> Some (v @ map content (filter (\<lambda>r. f r = k) rs)))"
proof (induction rs arbitrary: g)
  case Nil
  show ?case by (simp split: option.splits)
next
  case (Cons r rs)
  show ?case
    by (simp add: Cons.IH group_add_map_of split: option.splits)
qed

lemma groups_member:
  "entries \<in> set (map snd (foldl (\<lambda>g r. group_add g (f r) (content r)) [] rs)) \<longleftrightarrow>
     (\<exists>k. filter (\<lambda>r. f r = k) rs \<noteq> [] \<and> entries = map content (filter (\<lambda>r. f r = k) rs))"
proof -
  let ?g = "foldl (\<lambda>g r. group_add g (f r) (content r)) [] rs"
  have d: "distinct (map fst ?g)"
    by (rule fold_group_distinct) simp
  have "entries \<in> set (map snd ?g) \<longleftrightarrow> (\<exists>k. (k, entries) \<in> set ?g)"
    by force
  also have "\<dots> \<longleftrightarrow> (\<exists>k. map_of ?g k = Some entries)"
    using d by simp
  also have "\<dots> \<longleftrightarrow> (\<exists>k. filter (\<lambda>r. f r = k) rs \<noteq> []
                            \<and> entries = map content (filter (\<lambda>r. f r = k) rs))"
    by (auto simp: fold_group_map_of split: if_splits)
  finally show ?thesis .
qed

text \<open>
  Claim C9, as amended. \<^const>\<open>get_merge_candidates\<close> takes the non-deprecated records
  among the first 200 experience rows. When there are fewer of them than
  \<^verbatim>\<open>min_count\<close> (5 by default) it returns nothing; otherwise it returns exactly the
  category groups with at least 3 members: every category with at least 3 of these
  records appears, and every group returned is such a category's.
\<close>

theorem merge_candidates_are_large_categories:
  "(int (length (active_rows tbl)) < min_count \<longrightarrow> get_merge_candidates tbl min_count = [])
   \<and> (min_count \<le> int (length (active_rows tbl)) \<longrightarrow>
        (\<forall>cat. 3 \<le> length (category_group tbl cat) \<longrightarrow>
           category_group tbl cat \<in> set (get_merge_candidates tbl min_count))
        \<and> (\<forall>entries\<in>set (get_merge_candidates tbl min_count).
             3 \<le> length entries \<and> (\<exists>cat. entries = category_group tbl cat)))"
proof -
  let ?f = "\<lambda>r. category_of (content r)"
  have m: "entries \<in> set (get_merge_candidates tbl min_count) \<longleftrightarrow>
             3 \<le> length entries \<and> (\<exists>cat. entries = category_group tbl cat)"
    if "min_count \<le> int (length (active_rows tbl))" for entries
  proof -
    have "entries \<in> set (get_merge_candidates tbl min_count) \<longleftrightarrow>
            3 \<le> length entries
            \<and> entries \<in> set (map snd (foldl (\<lambda>g r. group_add g (?f r) (content r)) [] (active_rows tbl)))"
      using that by (auto simp: get_merge_candidates_def active_rows_def Let_def)
    also have "\<dots> \<longleftrightarrow> 3 \<le> length entries \<and> (\<exists>cat. entries = category_group tbl cat)"
    proof -
      have "filter (\<lambda>r. ?f r = cat) (active_rows tbl) \<noteq> []"
        if "3 \<le> length entries" "entries = category_group tbl cat" for cat
        using that by (auto simp: category_group_def)
      then show ?thesis
        unfolding groups_member category_group_def by blast
    qed
    finally show ?thesis .
  qed
  have "get_merge_candidates tbl min_count = []" if "int (length (active_rows tbl)) < min_count"
    using that by (simp add: get_merge_candidates_def active_rows_def Let_def)
  with m show ?thesis by auto
qed


lemma coding_rows_facts:
  "length (active_rows coding_rows) = 3"
  "length (category_group coding_rows (lit ''coding'')) = 3"
  "distinct (map key coding_rows)"
  "get_merge_candidates coding_rows 5 = []"
  by code_simp+

text \<open>
  Claim C9, witness: three active records of the category \<open>coding\<close>, with
  \<^verbatim>\<open>min_count\<close> 3.
\<close>

theorem merge_candidates_are_large_categories_witness:
  "3 \<le> int (length (active_rows coding_rows))
   \<and> 3 \<le> length (category_group coding_rows (lit ''coding''))
   \<and> category_group coding_rows (lit ''coding'') \<in> set (get_merge_candidates coding_rows 3)"
  using merge_candidates_are_large_categories[of coding_rows 3]
  by (simp add: coding_rows_facts)

text \<open>
  Claim C9, counterexample. With the default \<^verbatim>\<open>min_count\<close> of 5 the same store, whose
  category \<open>coding\<close> has three active records, yields no group.
\<close>

theorem merge_candidates_min_count_counterexample:
  "distinct (map key coding_rows)
   \<and> length (active_rows coding_rows) = 3
   \<and> length (category_group coding_rows (lit ''coding'')) = 3
   \<and> get_merge_candidates coding_rows 5 = []"
  by (simp add: coding_rows_facts)

lemma strip_subset: "set (strip s) \<subseteq> set s"
proof -
  have "set (dropWhile is_space (rev (dropWhile is_space s))) \<subseteq> set (rev (dropWhile is_space s))"
    by (rule set_dropWhileD[THEN subsetI]) 
  also have "\<dots> \<subseteq> set s"
    using set_dropWhileD[of _ is_space s] by auto
  finally show ?thesis by (simp add: strip_def)
qed

lemma after_bracket_subset: "set (after_bracket s) \<subseteq> set s"
  unfolding after_bracket_def
  using set_drop_subset[of 1 "dropWhile (\<lambda>c. c \<noteq> Ch (CHR '']'')) s"] set_dropWhileD[of _ "\<lambda>c. c \<noteq> Ch (CHR '']'')" s]
  by blast

lemma parse_field_lines_no_nl:
  "list_all (\<lambda>l. Ch (CHR 0x0A) \<notin> set l) ls \<Longrightarrow> Ch (CHR 0x0A) \<notin> set (parse_field_lines ls f)"
proof (induction ls)
  case Nil
  show ?case by simp
next
  case (Cons l ls)
  have "set (strip (after_bracket l)) \<subseteq> set l"
    using strip_subset after_bracket_subset by blast
  with Cons show ?case by auto
qed

lemma parse_field_no_nl: "Ch (CHR 0x0A) \<notin> set (parse_field c f)"
  unfolding parse_field_def
  by (rule parse_field_lines_no_nl) (simp add: list_all_iff split_nl_no_nl)

lemma parse_field_skip_line:
  "Ch (CHR 0x0A) \<notin> set p \<Longrightarrow> \<not> startswith p (field_tag f) \<Longrightarrow>
     parse_field (p @ Ch (CHR 0x0A) # c) f = parse_field c f"
  by (simp add: parse_field_def split_nl_line)

lemma is_failed_warning: "is_failed (warning_marker @ c) = is_failed c"
proof -
  let ?p = "[code_point 0x26A0, code_point 0xFE0F] @ (lit '' WARNING from past failure:'')"
  have e: "warning_marker @ c = ?p @ Ch (CHR 0x0A) # c"
    by (simp add: warning_marker_def)
  have "parse_field (?p @ Ch (CHR 0x0A) # c) (lit ''Outcome'') = parse_field c (lit ''Outcome'')"
    by (rule parse_field_skip_line) (simp_all add: startswith_def lit_def field_tag_def code_point_def)
  then show ?thesis
    unfolding is_failed_def e by (simp only:)
qed

lemma is_failed_conflict:
  assumes "Ch (CHR 0x0A) \<notin> set cat" "Ch (CHR 0x0A) \<notin> set prev" "Ch (CHR 0x0A) \<notin> set outcome"
  shows "is_failed (conflict_marker cat prev outcome @ c) = is_failed c"
proof -
  let ?p = "[code_point 0x26A1] @ (lit '' CONFLICTING experience (category '')
     @ [Ch (CHR 0x27)] @ cat @ [Ch (CHR 0x27)] @ (lit '' has both '') @ prev @ (lit '' and '') @ outcome @ (lit ''):'')"
  have e: "conflict_marker cat prev outcome @ c = ?p @ Ch (CHR 0x0A) # c"
    by (simp add: conflict_marker_def)
  have "parse_field (?p @ Ch (CHR 0x0A) # c) (lit ''Outcome'') = parse_field c (lit ''Outcome'')"
    using assms by (intro parse_field_skip_line) (simp_all add: startswith_def lit_def field_tag_def code_point_def)
  then show ?thesis
    unfolding is_failed_def e by (simp only:)
qed


lemma sort_desc_hd:
  assumes "sort_desc xs = w # ws"
  shows "w \<in> set xs \<and> (\<forall>v\<in>set xs. fst v \<le> fst w)"
proof -
  have s: "set (w # ws) = set xs"
    using assms[symmetric] by (simp add: sort_desc_def)
  have "sorted (map (\<lambda>x. - fst x) (w # ws))"
    using assms[symmetric] by (simp add: sort_desc_def)
  then have "\<forall>v\<in>set (w # ws). - fst w \<le> - fst v"
    by auto
  then show ?thesis
    using s by auto
qed

lemma set_sort_desc: "set (sort_desc xs) = set xs"
  by (simp add: sort_desc_def)

lemma select_positive_props:
  assumes "\<forall>k v. seen k = Some v \<longrightarrow> Ch (CHR 0x0A) \<notin> set v"
    and "list_all (\<lambda>e. \<not> is_failed e) results"
    and "list_all (\<lambda>x. \<not> is_failed (snd x)) xs"
  shows "list_all (\<lambda>e. \<not> is_failed e) (select_positive limit seen results xs)
         \<and> int (length (select_positive limit seen results xs))
             \<le> max (int (length results)) (limit - 1)"
  using assms
proof (induction xs arbitrary: seen results)
  case Nil
  then show ?case by simp
next
  case (Cons x xs)
  show ?case
  proof (cases "int (length results) \<ge> limit - 1")
    case True
    with Cons.prems show ?thesis by simp
  next
    case False
    let ?c = "snd x"
    let ?cat = "if parse_field ?c (lit ''Category'') = [] then (lit ''general'') else parse_field ?c (lit ''Category'')"
    let ?outcome = "parse_field ?c (lit ''Outcome'')"
    let ?entry = "case seen ?cat of None \<Rightarrow> ?c
                  | Some prev \<Rightarrow> if prev \<noteq> [] \<and> prev \<noteq> ?outcome
                                 then conflict_marker ?cat prev ?outcome @ ?c else ?c"
    let ?seen = "if seen ?cat = None then seen(?cat \<mapsto> ?outcome) else seen"
    have step: "select_positive limit seen results (x # xs)
                  = select_positive limit ?seen (results @ [?entry]) xs"
      using False by (simp add: Let_def)
    have nc: "\<not> is_failed ?c"
      using Cons.prems(3) by simp
    have cat: "Ch (CHR 0x0A) \<notin> set ?cat"
      using parse_field_no_nl[of ?c "(lit ''Category'')"] by simp
    have "\<not> is_failed ?entry"
    proof (cases "seen ?cat")
      case None
      with nc show ?thesis by simp
    next
      case (Some prev)
      with Cons.prems(1) have "Ch (CHR 0x0A) \<notin> set prev" by blast
      with cat nc Some show ?thesis
        by (simp add: is_failed_conflict parse_field_no_nl)
    qed
    with Cons.prems(2) have r: "list_all (\<lambda>e. \<not> is_failed e) (results @ [?entry])"
      by simp
    have i: "\<forall>k v. ?seen k = Some v \<longrightarrow> Ch (CHR 0x0A) \<notin> set v"
      using Cons.prems(1) parse_field_no_nl[of ?c "(lit ''Outcome'')"] by auto
    have t: "list_all (\<lambda>x. \<not> is_failed (snd x)) xs"
      using Cons.prems(3) by simp
    from Cons.IH[OF i r t]
    have "list_all (\<lambda>e. \<not> is_failed e) (select_positive limit ?seen (results @ [?entry]) xs)"
      and "int (length (select_positive limit ?seen (results @ [?entry]) xs))
             \<le> max (int (length (results @ [?entry]))) (limit - 1)"
      by simp_all
    with False show ?thesis
      unfolding step by simp
  qed
qed


lemma search_experience_decomposed:
  assumes "0 \<le> limit"
  shows "\<exists>pos warn. search_experience low semantic clk tbl query limit = pos @ warn
      \<and> list_all (\<lambda>e. \<not> is_failed e) pos
      \<and> int (length pos) \<le> max 0 (limit - 1)
      \<and> int (length (pos @ warn)) \<le> limit
      \<and> (warn = [] \<or>
          (\<exists>w\<in>set (warning_candidates low semantic clk tbl query limit).
             warn = [warning_marker @ snd w] \<and> is_failed (warning_marker @ snd w)
             \<and> (\<forall>v\<in>set (warning_candidates low semantic clk tbl query limit). fst v \<le> fst w)))"
proof -
  let ?sc = "scored clk (candidates low semantic tbl query limit)"
  let ?res = "select_positive limit Map.empty [] (positive_of ?sc)"
  let ?wpart = "case warnings_of ?sc of [] \<Rightarrow> [] | w # _ \<Rightarrow> [warning_marker @ snd w]"
  let ?n = "nat limit"
  have se: "search_experience low semantic clk tbl query limit = take ?n (?res @ ?wpart)"
    using assms by (simp add: search_experience_def Let_def slice_to_def split: list.splits)
  have "list_all (\<lambda>x. \<not> is_failed (snd x)) (positive_of ?sc)"
    by (simp add: positive_of_def list_all_iff set_sort_desc)
  with select_positive_props[of Map.empty "[]" "positive_of ?sc" limit]
  have p: "list_all (\<lambda>e. \<not> is_failed e) ?res" and l: "int (length ?res) \<le> max 0 (limit - 1)"
    by simp_all
  let ?pos = "take ?n ?res" and ?warn = "take (?n - length ?res) ?wpart"
  have 1: "search_experience low semantic clk tbl query limit = ?pos @ ?warn"
    by (simp add: se)
  have 2: "list_all (\<lambda>e. \<not> is_failed e) ?pos"
    using p by (auto simp: list_all_iff dest: in_set_takeD)
  have 3: "int (length ?pos) \<le> max 0 (limit - 1)"
    using l by simp
  have "?pos @ ?warn = take ?n (?res @ ?wpart)"
    by simp
  then have "length (?pos @ ?warn) \<le> ?n"
    by (simp only: length_take min.cobounded2)
  then have 4: "int (length (?pos @ ?warn)) \<le> limit"
    using assms by linarith
  have 5: "?warn = [] \<or>
          (\<exists>w\<in>set (warning_candidates low semantic clk tbl query limit).
             ?warn = [warning_marker @ snd w] \<and> is_failed (warning_marker @ snd w)
             \<and> (\<forall>v\<in>set (warning_candidates low semantic clk tbl query limit). fst v \<le> fst w))"
  proof (cases "warnings_of ?sc")
    case Nil
    then show ?thesis by simp
  next
    case (Cons w ws)
    then have "sort_desc (warning_candidates low semantic clk tbl query limit) = w # ws"
      by (simp add: warnings_of_def warning_candidates_def)
    from sort_desc_hd[OF this]
    have w: "w \<in> set (warning_candidates low semantic clk tbl query limit)"
      and m: "\<forall>v\<in>set (warning_candidates low semantic clk tbl query limit). fst v \<le> fst w"
      by simp_all
    from w have f: "is_failed (warning_marker @ snd w)"
      by (simp add: warning_candidates_def is_failed_warning)
    have "?warn = [] \<or> ?warn = [warning_marker @ snd w]"
      using Cons by (cases "?n - length ?res") simp_all
    with w m f show ?thesis by blast
  qed
  from 1 2 3 4 5 show ?thesis by blast
qed

text \<open>
  Claim C1. For every query and every non-negative limit, \<^const>\<open>search_experience\<close>
  returns at most \<open>limit\<close> entries. At most one of them is a warning (an entry whose
  outcome is \<open>failed\<close>), and the entries that are not warnings number at most
  \<open>limit - 1\<close>. The result is a list of non-warning entries followed by nothing or by
  one warning entry, which is then the last entry: the marked content of a warning
  candidate whose score no other warning candidate exceeds.
\<close>

theorem search_experience_limit_and_single_warning:
  assumes "0 \<le> limit"
  shows "int (length (search_experience low semantic clk tbl query limit)) \<le> limit
    \<and> length (filter is_failed (search_experience low semantic clk tbl query limit)) \<le> 1
    \<and> int (length (filter (\<lambda>e. \<not> is_failed e) (search_experience low semantic clk tbl query limit)))
        \<le> max 0 (limit - 1)
    \<and> (\<exists>pos warn. search_experience low semantic clk tbl query limit = pos @ warn
          \<and> list_all (\<lambda>e. \<not> is_failed e) pos
          \<and> (warn = [] \<or>
              (\<exists>w\<in>set (warning_candidates low semantic clk tbl query limit).
                 warn = [warning_marker @ snd w] \<and> is_failed (warning_marker @ snd w)
                 \<and> (\<forall>v\<in>set (warning_candidates low semantic clk tbl query limit). fst v \<le> fst w))))"
proof -
  from search_experience_decomposed[OF assms, of low semantic clk tbl query]
  obtain pos warn where d: "search_experience low semantic clk tbl query limit = pos @ warn"
    "list_all (\<lambda>e. \<not> is_failed e) pos" "int (length pos) \<le> max 0 (limit - 1)"
    "int (length (pos @ warn)) \<le> limit"
    "warn = [] \<or>
          (\<exists>w\<in>set (warning_candidates low semantic clk tbl query limit).
             warn = [warning_marker @ snd w] \<and> is_failed (warning_marker @ snd w)
             \<and> (\<forall>v\<in>set (warning_candidates low semantic clk tbl query limit). fst v \<le> fst w))"
    by blast
  have fp: "filter is_failed pos = []" "filter (\<lambda>e. \<not> is_failed e) pos = pos"
    using d(2) by (simp_all add: list_all_iff filter_empty_conv filter_id_conv)
  have w1: "length warn \<le> 1" and fw: "filter (\<lambda>e. \<not> is_failed e) warn = []"
    using d(5) by auto
  have a: "length (filter is_failed (pos @ warn)) \<le> 1"
    using fp w1 le_trans[OF length_filter_le w1] by simp
  have b: "int (length (filter (\<lambda>e. \<not> is_failed e) (pos @ warn))) \<le> max 0 (limit - 1)"
    using fp fw d(3) by simp
  show ?thesis
    unfolding d(1) using a b d(2,4,5) by blast
qed


lemma demo_search_facts:
  "candidates ascii_lower no_semantic [demo_row, failed_row] (lit ''git rebase'') 3 = [demo_row, failed_row]"
  "deprecated (content failed_row) = False"
  "is_failed (content demo_row) = False"
  "is_failed (content failed_row) = True"
  by code_simp+

lemma demo_search:
  "search_experience ascii_lower no_semantic (demo_clock 35) [demo_row, failed_row] (lit ''git rebase'') 3
     = [content demo_row, warning_marker @ content failed_row]"
  by (simp add: search_experience_def demo_search_facts scored_def demo_row_facts
        positive_of_def warnings_of_def sort_desc_def slice_to_def Let_def)

text \<open>
  Claim C1, witness: a store with one successful and one failed record on the query,
  searched with limit 3, gives the successful record and then the warning.
\<close>

theorem search_experience_limit_and_single_warning_witness:
  "(0::int) \<le> 3
   \<and> search_experience ascii_lower no_semantic (demo_clock 35) [demo_row, failed_row] (lit ''git rebase'') 3
       = [content demo_row, warning_marker @ content failed_row]
   \<and> int (length (search_experience ascii_lower no_semantic (demo_clock 35) [demo_row, failed_row]
                    (lit ''git rebase'') 3)) \<le> 3
   \<and> length (filter is_failed (search_experience ascii_lower no_semantic (demo_clock 35)
                 [demo_row, failed_row] (lit ''git rebase'') 3)) \<le> 1"
  using search_experience_limit_and_single_warning
          [of 3 ascii_lower no_semantic "demo_clock 35" "[demo_row, failed_row]" "(lit ''git rebase'')"]
        demo_search
  by simp

end
